(* ===== verification/Aux_Prelude.thy ===== *)
theory Aux_Prelude
  imports Complex_Main "HOL-Library.Word" "HOL-Library.Char_ord" "HOL-Library.List_Lexorder"
begin

text \<open>
  Shared vocabulary of the development: results (\<open>Result<T, E>\<close> of the Rust sources) as
  sums, \<open>std::cmp::Ordering\<close>, the checked machine arithmetic the sources call
  (\<open>checked_add\<close>, \<open>try_from\<close>) over \<open>int\<close> and \<open>nat\<close>, and the byte view of Rust
  strings.

  A Rust \<open>String\<close> or \<open>&str\<close> is the list of its UTF-8 bytes, a HOL \<open>string\<close>. Rust orders
  strings bytewise, which is the lexicographic order of \<open>HOL-Library.List_Lexorder\<close>
  over the byte order of \<open>HOL-Library.Char_ord\<close>.
\<close>

named_theorems result_simps "case analysis of results in assumptions"

section \<open>Results\<close>

type_synonym ('e, 'a) result = "'e + 'a"

text \<open>\<open>m?\<close> followed by the rest of the function.\<close>

definition ebind :: "'e + 'a \<Rightarrow> ('a \<Rightarrow> 'e + 'b) \<Rightarrow> 'e + 'b" where
  "ebind m f = (case m of Inl e \<Rightarrow> Inl e | Inr a \<Rightarrow> f a)"

lemma ebind_Inl [simp]: "ebind (Inl e) f = Inl e"
  by (simp add: ebind_def)

lemma ebind_Inr [simp]: "ebind (Inr a) f = f a"
  by (simp add: ebind_def)

lemma ebind_eq_Inr [result_simps]: "ebind m f = Inr b \<longleftrightarrow> (\<exists>a. m = Inr a \<and> f a = Inr b)"
  by (cases m) auto

lemma ebind_eq_Inl: "ebind m f = Inl e \<longleftrightarrow> m = Inl e \<or> (\<exists>a. m = Inr a \<and> f a = Inl e)"
  by (cases m) auto

lemma ebind_assoc: "ebind (ebind m f) g = ebind m (\<lambda>a. ebind (f a) g)"
  by (cases m) auto

lemma ebind_cong [fundef_cong]:
  "m = m' \<Longrightarrow> (\<And>a. m' = Inr a \<Longrightarrow> f a = g a) \<Longrightarrow> ebind m f = ebind m' g"
  by (cases m') auto

text \<open>\<open>Option::ok_or\<close>, \<open>Result::map_err\<close> and \<open>Result::is_ok_and\<close>.\<close>

definition ok_or :: "'e \<Rightarrow> 'a option \<Rightarrow> 'e + 'a" where
  "ok_or e x = (case x of None \<Rightarrow> Inl e | Some a \<Rightarrow> Inr a)"

lemma ok_or_simps [simp]: "ok_or e None = Inl e" "ok_or e (Some a) = Inr a"
  by (simp_all add: ok_or_def)

lemma ok_or_eq_Inr [result_simps]: "ok_or e x = Inr a \<longleftrightarrow> x = Some a"
  by (cases x) auto

definition map_err :: "('e \<Rightarrow> 'f) \<Rightarrow> 'e + 'a \<Rightarrow> 'f + 'a" where
  "map_err h m = (case m of Inl e \<Rightarrow> Inl (h e) | Inr a \<Rightarrow> Inr a)"

lemma map_err_simps [simp]: "map_err h (Inl e) = Inl (h e)" "map_err h (Inr a) = Inr a"
  by (simp_all add: map_err_def)

lemma map_err_eq_Inr [result_simps]: "map_err h m = Inr a \<longleftrightarrow> m = Inr a"
  by (cases m) auto

definition is_ok_and :: "'e + 'a \<Rightarrow> ('a \<Rightarrow> bool) \<Rightarrow> bool" where
  "is_ok_and m p = (case m of Inl e \<Rightarrow> False | Inr a \<Rightarrow> p a)"

lemma is_ok_and_simps [simp]: "\<not> is_ok_and (Inl e) p" "is_ok_and (Inr a) p = p a"
  by (simp_all add: is_ok_and_def)

section \<open>Orderings\<close>

datatype ordering = OLess | OEqual | OGreater

definition cmp :: "'a::linorder \<Rightarrow> 'a \<Rightarrow> ordering" where
  "cmp a b = (if a < b then OLess else if a = b then OEqual else OGreater)"

definition then_with :: "ordering \<Rightarrow> ordering \<Rightarrow> ordering" where
  "then_with a b = (if a = OEqual then b else a)"

fun ord_reverse :: "ordering \<Rightarrow> ordering" where
  "ord_reverse OLess = OGreater"
| "ord_reverse OEqual = OEqual"
| "ord_reverse OGreater = OLess"

definition is_lt :: "ordering \<Rightarrow> bool" where "is_lt r \<longleftrightarrow> r = OLess"
definition is_le :: "ordering \<Rightarrow> bool" where "is_le r \<longleftrightarrow> r \<noteq> OGreater"
definition is_gt :: "ordering \<Rightarrow> bool" where "is_gt r \<longleftrightarrow> r = OGreater"
definition is_ge :: "ordering \<Rightarrow> bool" where "is_ge r \<longleftrightarrow> r \<noteq> OLess"
definition is_eq :: "ordering \<Rightarrow> bool" where "is_eq r \<longleftrightarrow> r = OEqual"

lemma cmp_simps:
  "cmp a b = OLess \<longleftrightarrow> a < b" "cmp a b = OEqual \<longleftrightarrow> a = b" "cmp a b = OGreater \<longleftrightarrow> b < a"
  by (auto simp: cmp_def)

lemma cmp_refl [simp]: "cmp a a = OEqual"
  by (simp add: cmp_def)

lemma is_cmp_simps [simp]:
  "is_lt (cmp a b) \<longleftrightarrow> a < b" "is_le (cmp a b) \<longleftrightarrow> a \<le> b" "is_gt (cmp a b) \<longleftrightarrow> b < a"
  "is_ge (cmp a b) \<longleftrightarrow> b \<le> a" "is_eq (cmp a b) \<longleftrightarrow> a = b"
  by (auto simp: is_lt_def is_le_def is_gt_def is_ge_def is_eq_def cmp_def)

lemma cmp_swap: "cmp b a = ord_reverse (cmp a b)"
  by (auto simp: cmp_def)

lemma cmp_strict_mono:
  assumes "a < b \<Longrightarrow> f a < f b" and "b < a \<Longrightarrow> f b < f a"
  shows "cmp (f a) (f b) = cmp a (b::'a::linorder)"
  using assms by (cases a b rule: linorder_cases) (auto simp: cmp_def not_less_iff_gr_or_eq)

section \<open>Checked machine integers\<close>

definition in_i32 :: "int \<Rightarrow> bool" where
  "in_i32 n \<longleftrightarrow> - 2147483648 \<le> n \<and> n \<le> 2147483647"

definition in_i64 :: "int \<Rightarrow> bool" where
  "in_i64 n \<longleftrightarrow> - 9223372036854775808 \<le> n \<and> n \<le> 9223372036854775807"

definition in_usize :: "int \<Rightarrow> bool" where
  "in_usize n \<longleftrightarrow> 0 \<le> n \<and> n \<le> 18446744073709551615"

definition checked_i32 :: "int \<Rightarrow> int option" where
  "checked_i32 n = (if in_i32 n then Some n else None)"

definition checked_i64 :: "int \<Rightarrow> int option" where
  "checked_i64 n = (if in_i64 n then Some n else None)"

definition checked_usize :: "nat \<Rightarrow> nat option" where
  "checked_usize n = (if in_usize (int n) then Some n else None)"

definition usize_try_from :: "int \<Rightarrow> nat option" where
  "usize_try_from n = (if in_usize n then Some (nat n) else None)"

lemmas checked_defs = checked_i32_def checked_i64_def checked_usize_def usize_try_from_def
lemmas range_defs = in_i32_def in_i64_def in_usize_def

section \<open>Bytes and decimal digits\<close>

definition is_ascii_digit :: "char \<Rightarrow> bool" where
  "is_ascii_digit c \<longleftrightarrow> 48 \<le> (of_char c :: nat) \<and> (of_char c :: nat) \<le> 57"

text \<open>\<open>byte - b'0'\<close>\<close>

definition digit_val :: "char \<Rightarrow> nat" where
  "digit_val c = of_char c - 48"

definition digit_char :: "nat \<Rightarrow> char" where
  "digit_char d = char_of (48 + d)"

abbreviation all_digits :: "string \<Rightarrow> bool" where
  "all_digits s \<equiv> list_all is_ascii_digit s"

text \<open>The number a string of decimal digits denotes.\<close>

definition digs_val :: "string \<Rightarrow> nat" where
  "digs_val ds = foldl (\<lambda>a c. 10 * a + digit_val c) 0 ds"

lemma of_char_inj: "(of_char c :: nat) = of_char d \<longleftrightarrow> c = d"
  by simp

lemma is_ascii_digit_zero [simp]: "is_ascii_digit (CHR ''0'')"
  by (simp add: is_ascii_digit_def)

lemma digit_val_zero [simp]: "digit_val (CHR ''0'') = 0"
  by (simp add: digit_val_def)

lemma digit_val_le: "is_ascii_digit c \<Longrightarrow> digit_val c \<le> 9"
  unfolding is_ascii_digit_def digit_val_def by linarith

lemma digit_val_pos: "is_ascii_digit c \<Longrightarrow> c \<noteq> CHR ''0'' \<Longrightarrow> 0 < digit_val c"
proof -
  assume d: "is_ascii_digit c" and "c \<noteq> CHR ''0''"
  then have "(of_char c :: nat) \<noteq> of_char (CHR ''0'')"
    by (simp only: of_char_inj not_False_eq_True)
  with d show ?thesis by (auto simp: is_ascii_digit_def digit_val_def)
qed

lemma digit_val_less: "is_ascii_digit c \<Longrightarrow> is_ascii_digit d \<Longrightarrow> digit_val c < digit_val d \<longleftrightarrow> c < d"
  by (auto simp: is_ascii_digit_def digit_val_def less_char_def)

lemma is_ascii_digit_char: "d \<le> 9 \<Longrightarrow> is_ascii_digit (digit_char d)"
  by (simp add: is_ascii_digit_def digit_char_def)

lemma digit_val_char [simp]: "d \<le> 9 \<Longrightarrow> digit_val (digit_char d) = d"
  by (simp add: digit_val_def digit_char_def)

lemma digs_val_Nil [simp]: "digs_val [] = 0"
  by (simp add: digs_val_def)

lemma foldl_digits: "foldl (\<lambda>a c. 10 * a + digit_val c) n ds = n * 10 ^ length ds + digs_val ds"
proof (induction ds arbitrary: n)
  case (Cons d ds)
  have "digs_val (d # ds) = digit_val d * 10 ^ length ds + digs_val ds"
    using Cons.IH [of "digit_val d"] by (simp add: digs_val_def)
  with Cons.IH [of "10 * n + digit_val d"] show ?case
    by (simp add: algebra_simps)
qed simp

lemma digs_val_Cons [simp]: "digs_val (d # ds) = digit_val d * 10 ^ length ds + digs_val ds"
  using foldl_digits [of "digit_val d" ds] by (simp add: digs_val_def)

lemma digs_val_append [simp]: "digs_val (xs @ ys) = digs_val xs * 10 ^ length ys + digs_val ys"
  by (induction xs) (simp_all add: algebra_simps power_add)

lemma digs_val_zeros [simp]: "digs_val (replicate n (CHR ''0'')) = 0"
  by (induction n) simp_all

lemma digs_val_bound: "all_digits ds \<Longrightarrow> digs_val ds < 10 ^ length ds"
proof (induction ds)
  case (Cons d ds)
  then have "digit_val d * 10 ^ length ds \<le> 9 * 10 ^ length ds"
    by (intro mult_right_mono) (auto dest: digit_val_le)
  moreover from Cons have "digs_val ds < 10 ^ length ds" by simp
  ultimately have "digit_val d * 10 ^ length ds + digs_val ds < 10 * 10 ^ length ds" by linarith
  then show ?case by simp
qed simp

end
