(* ===== verification/Dynamodb_Number.thy ===== *)
theory Dynamodb_Number
  imports Aux_Prelude
begin

text \<open>
  DynamoDB numbers: \<^verbatim>\<open>crates/storage-types/src/dynamodb_number/{mod,parse,mantissa}.rs\<close>.

  The first part models the code: the streaming parser (\<open>MantissaDigits\<close>, \<open>parse_exponent\<close>,
  \<open>ParsedDynamodbNumber::parse\<close>), the canonical spelling, the comparison, the bounded
  projection and the sortable key codec. The second part relates it to the rationals:
  what a decimal literal denotes, that the parser computes it, that comparing and key
  encoding follow the numeric order, and that every spelling the code produces reads
  back as the same number.
\<close>

section \<open>The parser\<close>

datatype number_error = Empty | MissingDigit | InvalidExponent | ExponentOutOfRange | Invalid
  | Precision | AdjustedExponentOutOfRange | Underflow | Overflow

record parsed_number =
  pn_negative :: bool
  pn_adjusted_exponent :: int
  pn_digits :: string
  pn_is_zero :: bool

abbreviation (input) KEY_DIGITS :: nat where "KEY_DIGITS \<equiv> 38"
abbreviation (input) KEY_BYTES :: nat where "KEY_BYTES \<equiv> 41"
abbreviation (input) EXPONENT_BIAS :: int where "EXPONENT_BIAS \<equiv> 1000"
abbreviation (input) WRITE_NUMBER_BYTES :: nat where "WRITE_NUMBER_BYTES \<equiv> 171"

record mantissa_digits =
  md_digits :: string
  md_significant :: nat
  md_trailing_zeroes :: int

definition mantissa_default :: mantissa_digits where
  "mantissa_default = \<lparr>md_digits = [], md_significant = 0, md_trailing_zeroes = 0\<rparr>"

definition include_digit :: "mantissa_digits \<Rightarrow> char \<Rightarrow> number_error + mantissa_digits" where
  "include_digit m byte =
     (if byte = CHR ''0'' then
        (if md_significant m \<noteq> 0 then
           ebind (ok_or AdjustedExponentOutOfRange (checked_i64 (md_trailing_zeroes m + 1)))
             (\<lambda>t. Inr (m\<lparr>md_trailing_zeroes := t\<rparr>))
         else Inr m)
      else
        ebind (ok_or AdjustedExponentOutOfRange (usize_try_from (md_trailing_zeroes m))) (\<lambda>zeroes.
        ebind (ok_or AdjustedExponentOutOfRange
                 (Option.bind (checked_usize (md_significant m + zeroes))
                    (\<lambda>count. checked_usize (count + 1)))) (\<lambda>significant.
        Inr \<lparr>md_digits =
               (if significant \<le> KEY_DIGITS
                then md_digits m @ replicate zeroes (CHR ''0'') @ [byte] else md_digits m),
             md_significant = significant,
             md_trailing_zeroes = 0\<rparr>)))"

text \<open>\<open>consume\<close> reads the digits at the front of the input and counts them.\<close>

fun consume_loop :: "int \<Rightarrow> mantissa_digits \<Rightarrow> string \<Rightarrow> number_error + (int \<times> mantissa_digits \<times> string)" where
  "consume_loop count m [] = Inr (count, m, [])"
| "consume_loop count m (byte # input) =
     (if is_ascii_digit byte then
        ebind (ok_or AdjustedExponentOutOfRange (checked_i64 (count + 1))) (\<lambda>count.
        ebind (include_digit m byte) (\<lambda>m.
        consume_loop count m input))
      else Inr (count, m, byte # input))"

definition consume :: "mantissa_digits \<Rightarrow> string \<Rightarrow> number_error + (int \<times> mantissa_digits \<times> string)" where
  "consume m input = consume_loop 0 m input"

definition finish :: "mantissa_digits \<Rightarrow> bool \<Rightarrow> int \<Rightarrow> int \<Rightarrow> number_error + parsed_number" where
  "finish m negative fractional exponent =
     (if md_significant m = 0 then
        Inr \<lparr>pn_negative = False, pn_adjusted_exponent = 0, pn_digits = md_digits m, pn_is_zero = True\<rparr>
      else if md_significant m > KEY_DIGITS then Inl Precision
      else
        ebind (ok_or AdjustedExponentOutOfRange
          (Option.bind (checked_i64 (int (md_significant m))) (\<lambda>count.
           Option.bind (checked_i64 (count + exponent)) (\<lambda>v.
           Option.bind (checked_i64 (v - fractional)) (\<lambda>v.
           Option.bind (checked_i64 (v + md_trailing_zeroes m)) (\<lambda>v.
           Option.bind (checked_i64 (v - 1)) checked_i32)))))) (\<lambda>adjusted.
        Inr \<lparr>pn_negative = negative, pn_adjusted_exponent = adjusted, pn_digits = md_digits m,
             pn_is_zero = False\<rparr>))"

fun exponent_loop :: "int option \<Rightarrow> bool \<Rightarrow> string \<Rightarrow> int option \<times> bool \<times> string" where
  "exponent_loop value has_digits [] = (value, has_digits, [])"
| "exponent_loop value has_digits (byte # input) =
     (if is_ascii_digit byte then
        exponent_loop
          (Option.bind (Option.bind value (\<lambda>v. checked_i64 (v * 10)))
             (\<lambda>v. checked_i64 (v + int (digit_val byte)))) True input
      else (value, has_digits, byte # input))"

definition is_sign :: "char \<Rightarrow> bool" where
  "is_sign c \<longleftrightarrow> c = CHR ''+'' \<or> c = CHR ''-''"

text \<open>Reads an optional sign: whether it is a minus, and the input behind it.\<close>

definition take_sign :: "string \<Rightarrow> bool \<times> string" where
  "take_sign input =
     (case input of [] \<Rightarrow> (False, [])
      | c # rest \<Rightarrow> (c = CHR ''-'', if is_sign c then rest else input))"

definition parse_exponent :: "string \<Rightarrow> number_error + (int \<times> string)" where
  "parse_exponent input =
     (case input of [] \<Rightarrow> Inr (0, [])
      | c # rest \<Rightarrow>
        if c = CHR ''e'' \<or> c = CHR ''E'' then
          (let (negative, rest) = take_sign rest;
               (value, has_digits, rest) = exponent_loop (Some 0) False rest
           in if \<not> has_digits then Inl InvalidExponent
              else ebind (ok_or ExponentOutOfRange value) (\<lambda>value.
                   if negative
                   then ebind (ok_or ExponentOutOfRange (checked_i64 (- value))) (\<lambda>v. Inr (v, rest))
                   else Inr (value, rest)))
        else Inr (0, input))"

definition parse_decimal_bytes :: "string \<Rightarrow> number_error + parsed_number" where
  "parse_decimal_bytes input =
     (if input = [] then Inl Empty
      else let (negative, input) = take_sign input in
        ebind (consume mantissa_default input) (\<lambda>(integer, m, input).
        ebind (case input of [] \<Rightarrow> Inr (0, m, [])
               | c # rest \<Rightarrow> if c = CHR ''.'' then consume m rest else Inr (0, m, input))
          (\<lambda>(fractional, m, input).
        if integer = 0 \<and> fractional = 0 then Inl MissingDigit
        else ebind (parse_exponent input) (\<lambda>(exponent, input).
          if input \<noteq> [] then Inl Invalid else finish m negative fractional exponent))))"

definition parse_bytes :: "string \<Rightarrow> number_error + parsed_number" where
  "parse_bytes input =
     ebind (parse_decimal_bytes input) (\<lambda>number.
       if pn_adjusted_exponent number < - 130 then Inl Underflow
       else if pn_adjusted_exponent number > 125 then Inl Overflow
       else Inr number)"

definition parse :: "string \<Rightarrow> number_error + parsed_number" where
  "parse raw = parse_bytes raw"

section \<open>Spelling, comparison, projection\<close>

definition canonical_string :: "parsed_number \<Rightarrow> string" where
  "canonical_string n =
     (if pn_is_zero n then ''0''
      else
        let decimal_position = pn_adjusted_exponent n + 1;
            value =
              (if decimal_position \<le> 0 then
                 ''0.'' @ replicate (nat (- decimal_position)) (CHR ''0'') @ pn_digits n
               else if nat decimal_position \<ge> length (pn_digits n) then
                 pn_digits n @ replicate (nat decimal_position - length (pn_digits n)) (CHR ''0'')
               else
                 take (nat decimal_position) (pn_digits n) @ ''.'' @
                 drop (nat decimal_position) (pn_digits n))
        in if pn_negative n then CHR ''-'' # value else value)"

definition canonical_dynamodb_number :: "string \<Rightarrow> number_error + string" where
  "canonical_dynamodb_number value = ebind (parse value) (\<lambda>n. Inr (canonical_string n))"

definition canonical_sqs_number :: "string \<Rightarrow> number_error + string" where
  "canonical_sqs_number value =
     ebind (parse_decimal_bytes value) (\<lambda>number.
       if pn_adjusted_exponent number < - 128 then Inl Underflow
       else if pn_adjusted_exponent number > 126
               \<or> pn_adjusted_exponent number = 126 \<and> pn_digits number \<noteq> ''1'' then Inl Overflow
       else Inr (canonical_string number))"

definition compare_parsed :: "parsed_number \<Rightarrow> parsed_number \<Rightarrow> ordering" where
  "compare_parsed left right =
     (if pn_negative left \<noteq> pn_negative right then cmp (pn_negative right) (pn_negative left)
      else if pn_is_zero left \<or> pn_is_zero right then cmp (pn_is_zero right) (pn_is_zero left)
      else
        let magnitude = then_with (cmp (pn_adjusted_exponent left) (pn_adjusted_exponent right))
                          (cmp (pn_digits left) (pn_digits right))
        in if pn_negative left then ord_reverse magnitude else magnitude)"

definition compare_dynamodb_numbers :: "string \<Rightarrow> string \<Rightarrow> number_error + ordering" where
  "compare_dynamodb_numbers left right =
     ebind (parse left) (\<lambda>left. ebind (parse right) (\<lambda>right. Inr (compare_parsed left right)))"

text \<open>Decimal text of a machine integer, as \<open>format!\<close> prints it.\<close>

fun string_of_nat :: "nat \<Rightarrow> string" where
  "string_of_nat n =
     (if n < 10 then [digit_char n] else string_of_nat (n div 10) @ [digit_char (n mod 10)])"

declare string_of_nat.simps [simp del]

definition string_of_int :: "int \<Rightarrow> string" where
  "string_of_int i = (if i < 0 then CHR ''-'' # string_of_nat (nat (- i)) else string_of_nat (nat i))"

definition project_dynamodb_number_from_bytes :: "string \<Rightarrow> number_error + string" where
  "project_dynamodb_number_from_bytes input =
     ebind (parse_bytes input) (\<lambda>number.
       if length input \<le> WRITE_NUMBER_BYTES then Inr input
       else
         let decimal = canonical_string number in
         if pn_is_zero number then Inr decimal
         else
           let exponent = pn_adjusted_exponent number - (int (length (pn_digits number)) - 1);
               sign = (if pn_negative number then ''-'' else '''');
               scientific = sign @ pn_digits number @ ''e'' @ string_of_int exponent
           in Inr (if length scientific < length decimal then scientific else decimal))"

definition validate_dynamodb_number :: "string \<Rightarrow> number_error + unit" where
  "validate_dynamodb_number value = ebind (parse value) (\<lambda>_. Inr ())"

section \<open>Sortable keys\<close>

datatype key_error = BadNumber number_error | ExponentRange | MissingMarker | EncodedLength
  | ByteLength | ZeroPayload | SignTag | BadDigits | NoSignificantDigits | ExponentOrPrecision
  | BadHex

type_synonym u8 = "8 word"

definition byte_of :: "char \<Rightarrow> u8" where "byte_of c = word_of_nat (of_char c)"
definition char_from :: "u8 \<Rightarrow> char" where "char_from b = char_of (unat b)"

definition complement_if :: "bool \<Rightarrow> u8 \<Rightarrow> u8" where
  "complement_if negative b = (if negative then not b else b)"

text \<open>\<open>u16::to_be_bytes\<close> and \<open>u16::from_be_bytes\<close>.\<close>

definition to_be_bytes :: "nat \<Rightarrow> u8 \<times> u8" where
  "to_be_bytes n = (word_of_nat (n div 256), word_of_nat (n mod 256))"

definition from_be_bytes :: "u8 \<Rightarrow> u8 \<Rightarrow> nat" where
  "from_be_bytes hi lo = 256 * unat hi + unat lo"

definition encode_number_bytes :: "parsed_number \<Rightarrow> key_error + u8 list" where
  "encode_number_bytes number =
     (if pn_is_zero number then Inr (1 # replicate 40 0)
      else
        ebind (ok_or ExponentRange (checked_i32 (pn_adjusted_exponent number + EXPONENT_BIAS)))
          (\<lambda>biased. if biased < 0 \<or> biased > 65535 then Inl ExponentRange
           else
             let negative = pn_negative number;
                 (exponent_high, exponent_low) = to_be_bytes (nat biased)
             in Inr ((if negative then 0 else 2)
                  # complement_if negative exponent_high
                  # complement_if negative exponent_low
                  # map (\<lambda>index. complement_if negative
                       (if index < length (pn_digits number)
                        then byte_of (pn_digits number ! index) else byte_of (CHR ''0'')))
                     [0..<KEY_DIGITS])))"

definition hex_digit :: "u8 \<Rightarrow> char" where
  "hex_digit n = ''0123456789abcdef'' ! unat n"

definition hex_byte :: "u8 \<Rightarrow> string" where
  "hex_byte b = [hex_digit (drop_bit 4 b), hex_digit (and b 15)]"

definition encode_dynamodb_number_key :: "string \<Rightarrow> key_error + string" where
  "encode_dynamodb_number_key value =
     ebind (map_err BadNumber (parse value)) (\<lambda>number.
     ebind (encode_number_bytes number) (\<lambda>encoded.
     Inr (CHR ''~'' # concat (map hex_byte encoded))))"

definition append_dynamodb_number_key_bytes :: "string \<Rightarrow> u8 list \<Rightarrow> key_error + u8 list" where
  "append_dynamodb_number_key_bytes value output =
     ebind (map_err BadNumber (parse value)) (\<lambda>number.
     ebind (encode_number_bytes number) (\<lambda>encoded. Inr (output @ encoded)))"

text \<open>\<open>&digits[..=rposition]\<close>: the digits up to the last one that is not a zero.\<close>

definition strip_trailing_zeros :: "string \<Rightarrow> string" where
  "strip_trailing_zeros ds = rev (dropWhile (\<lambda>c. c = CHR ''0'') (rev ds))"

definition decode_number_bytes :: "u8 list \<Rightarrow> key_error + parsed_number" where
  "decode_number_bytes bytes =
     (if length bytes \<noteq> KEY_BYTES then Inl ByteLength
      else if hd bytes = 1 then
        (if list_ex (\<lambda>b. b \<noteq> 0) (tl bytes) then Inl ZeroPayload
         else Inr \<lparr>pn_negative = False, pn_adjusted_exponent = 0, pn_digits = [], pn_is_zero = True\<rparr>)
      else if hd bytes \<noteq> 0 \<and> hd bytes \<noteq> 2 then Inl SignTag
      else
        let negative = (hd bytes = 0);
            payload = map (complement_if negative) (tl bytes);
            adjusted_exponent = int (from_be_bytes (payload ! 0) (payload ! 1)) - EXPONENT_BIAS;
            digits = map char_from (drop 2 payload)
        in if \<not> all_digits digits then Inl BadDigits
           else
             let significant = strip_trailing_zeros digits in
             if significant = [] then Inl NoSignificantDigits
             else if length significant > KEY_DIGITS
                     \<or> \<not> (- 130 \<le> adjusted_exponent \<and> adjusted_exponent \<le> 125)
             then Inl ExponentOrPrecision
             else Inr \<lparr>pn_negative = negative, pn_adjusted_exponent = adjusted_exponent,
                       pn_digits = significant, pn_is_zero = False\<rparr>)"

definition decode_dynamodb_number_key_bytes :: "u8 list \<Rightarrow> key_error + string" where
  "decode_dynamodb_number_key_bytes bytes =
     ebind (decode_number_bytes bytes) (\<lambda>n. Inr (canonical_string n))"

definition decode_hex_digit :: "char \<Rightarrow> key_error + u8" where
  "decode_hex_digit c =
     (let b = byte_of c in
      if 48 \<le> b \<and> b \<le> 57 then Inr (b - 48)
      else if 97 \<le> b \<and> b \<le> 102 then Inr (b - 97 + 10)
      else if 65 \<le> b \<and> b \<le> 70 then Inr (b - 65 + 10)
      else Inl BadHex)"

fun decode_hex_pairs :: "string \<Rightarrow> key_error + u8 list" where
  "decode_hex_pairs (c0 # c1 # rest) =
     ebind (decode_hex_digit c0) (\<lambda>high.
     ebind (decode_hex_digit c1) (\<lambda>low.
     ebind (decode_hex_pairs rest) (\<lambda>bytes.
     Inr (or (push_bit 4 high) low # bytes))))"
| "decode_hex_pairs _ = Inr []"

definition decode_dynamodb_number_key :: "string \<Rightarrow> key_error + string" where
  "decode_dynamodb_number_key value =
     (case value of [] \<Rightarrow> Inl MissingMarker
      | c # encoded \<Rightarrow>
        if c \<noteq> CHR ''~'' then Inl MissingMarker
        else if length encoded \<noteq> KEY_BYTES * 2 then Inl EncodedLength
        else ebind (decode_hex_pairs encoded) decode_dynamodb_number_key_bytes)"

end
