(* ===== verification/Number_Semantics.thy ===== *)
theory Number_Semantics
  imports Dynamodb_Number
begin

text \<open>
  What the number parser of \<open>dynamodb_number\<close> computes. A decimal literal
  (\<open>decimal_literal\<close>) is the abstract syntax, \<open>literal_value\<close> its meaning as a rational.
  The mantissa accumulator is characterised by a split of the digit text into leading zeros,
  significant digits and trailing zeros (\<open>digit_split\<close>); from it follow the type invariant of
  a parsed number (\<open>wf_number\<close>), that a parsed number denotes the literal's value, and which
  literals are accepted.
\<close>

section \<open>What a decimal literal denotes\<close>

abbreviation zeros :: "nat \<Rightarrow> string" where
  "zeros n \<equiv> replicate n (CHR ''0'')"

text \<open>
  The abstract side: a decimal literal is an optional sign, integer digits, optional
  fraction digits and an optional exponent; it denotes a rational.
\<close>

record decimal_literal =
  dl_sign :: string
  dl_int :: string
  dl_frac :: "string option"
  dl_exp :: "(char \<times> string \<times> string) option"

definition frac_digits :: "decimal_literal \<Rightarrow> string" where
  "frac_digits l = (case dl_frac l of None \<Rightarrow> [] | Some f \<Rightarrow> f)"

definition sign_text :: "string \<Rightarrow> bool" where
  "sign_text s \<longleftrightarrow> s = '''' \<or> s = ''+'' \<or> s = ''-''"

definition wf_literal :: "decimal_literal \<Rightarrow> bool" where
  "wf_literal l \<longleftrightarrow>
     sign_text (dl_sign l) \<and> all_digits (dl_int l) \<and> all_digits (frac_digits l)
     \<and> dl_int l @ frac_digits l \<noteq> []
     \<and> (case dl_exp l of None \<Rightarrow> True
        | Some (e, s, d) \<Rightarrow> (e = CHR ''e'' \<or> e = CHR ''E'') \<and> sign_text s \<and> all_digits d \<and> d \<noteq> [])"

definition literal_text :: "decimal_literal \<Rightarrow> string" where
  "literal_text l =
     dl_sign l @ dl_int l @ (case dl_frac l of None \<Rightarrow> [] | Some f \<Rightarrow> CHR ''.'' # f)
     @ (case dl_exp l of None \<Rightarrow> [] | Some (e, s, d) \<Rightarrow> e # s @ d)"

definition literal_exponent :: "decimal_literal \<Rightarrow> int" where
  "literal_exponent l =
     (case dl_exp l of None \<Rightarrow> 0
      | Some (e, s, d) \<Rightarrow> (if s = ''-'' then - int (digs_val d) else int (digs_val d)))"

definition literal_digits :: "decimal_literal \<Rightarrow> string" where
  "literal_digits l = dl_int l @ frac_digits l"

definition literal_value :: "decimal_literal \<Rightarrow> rat" where
  "literal_value l =
     (if dl_sign l = ''-'' then - 1 else 1) * of_nat (digs_val (literal_digits l))
     * 10 powi (literal_exponent l - int (length (frac_digits l)))"

text \<open>Significant digits: what is left without leading and trailing zeros.\<close>

definition significant_digits :: "string \<Rightarrow> string" where
  "significant_digits ds = strip_trailing_zeros (dropWhile (\<lambda>c. c = CHR ''0'') ds)"

definition number_value :: "parsed_number \<Rightarrow> rat" where
  "number_value n =
     (if pn_is_zero n then 0
      else (if pn_negative n then - 1 else 1) * of_nat (digs_val (pn_digits n))
           * 10 powi (pn_adjusted_exponent n - int (length (pn_digits n)) + 1))"

text \<open>The type invariant of \<open>ParsedDynamodbNumber\<close>.\<close>

definition wf_number :: "parsed_number \<Rightarrow> bool" where
  "wf_number n \<longleftrightarrow>
     (if pn_is_zero n then \<not> pn_negative n \<and> pn_adjusted_exponent n = 0 \<and> pn_digits n = []
      else pn_digits n \<noteq> [] \<and> all_digits (pn_digits n) \<and> length (pn_digits n) \<le> 38
           \<and> hd (pn_digits n) \<noteq> CHR ''0'' \<and> last (pn_digits n) \<noteq> CHR ''0'')"

definition in_dynamodb_range :: "parsed_number \<Rightarrow> bool" where
  "in_dynamodb_range n \<longleftrightarrow> - 130 \<le> pn_adjusted_exponent n \<and> pn_adjusted_exponent n \<le> 125"

section \<open>The mantissa invariant\<close>

definition digit_split :: "string \<Rightarrow> nat \<Rightarrow> string \<Rightarrow> nat \<Rightarrow> bool" where
  "digit_split ds lead sd tz \<longleftrightarrow>
     ds = zeros lead @ sd @ zeros tz
     \<and> (if sd = [] then tz = 0 else hd sd \<noteq> CHR ''0'' \<and> last sd \<noteq> CHR ''0'')"

definition mantissa_of :: "string \<Rightarrow> mantissa_digits \<Rightarrow> bool" where
  "mantissa_of ds m \<longleftrightarrow>
     (\<exists>lead sd tz. digit_split ds lead sd tz \<and> md_significant m = length sd
        \<and> md_trailing_zeroes m = int tz \<and> (length sd \<le> 38 \<longrightarrow> md_digits m = sd))"

lemma strip_trailing_zeros_zeros [simp]: "strip_trailing_zeros (zeros n) = []"
  by (simp add: strip_trailing_zeros_def)

lemma dropWhile_zeros: "dropWhile (\<lambda>c. c = CHR ''0'') (zeros n @ xs) = dropWhile (\<lambda>c. c = CHR ''0'') xs"
  by (induction n) simp_all

lemma strip_trailing_zeros_append_zeros [simp]:
  "strip_trailing_zeros (xs @ zeros n) = strip_trailing_zeros xs"
  by (simp add: strip_trailing_zeros_def dropWhile_zeros)

lemma dropWhile_hd: "xs \<noteq> [] \<Longrightarrow> \<not> P (hd xs) \<Longrightarrow> dropWhile P xs = xs"
  by (cases xs) auto

lemma strip_trailing_zeros_id: "xs \<noteq> [] \<Longrightarrow> last xs \<noteq> CHR ''0'' \<Longrightarrow> strip_trailing_zeros xs = xs"
  by (simp add: strip_trailing_zeros_def dropWhile_hd hd_rev)

lemma digit_split_significant:
  assumes "digit_split ds lead sd tz" shows "significant_digits ds = sd"
proof (cases "sd = []")
  case True
  with assms show ?thesis
    by (simp add: significant_digits_def digit_split_def strip_trailing_zeros_def)
next
  case False
  with assms show ?thesis
    by (auto simp: significant_digits_def digit_split_def dropWhile_zeros dropWhile_hd
        strip_trailing_zeros_id)
qed

lemma takeWhile_zeros: "takeWhile (\<lambda>c. c = CHR ''0'') xs = zeros (length (takeWhile (\<lambda>c. c = CHR ''0'') xs))"
  by (induction xs) auto

lemma strip_decomp: "\<exists>tz. xs = strip_trailing_zeros xs @ zeros tz"
proof -
  let ?t = "takeWhile (\<lambda>c. c = CHR ''0'') (rev xs)"
  have "rev xs = ?t @ dropWhile (\<lambda>c. c = CHR ''0'') (rev xs)" by simp
  then have "xs = rev (dropWhile (\<lambda>c. c = CHR ''0'') (rev xs)) @ rev ?t"
    by (metis rev_append rev_rev_ident)
  moreover have "rev ?t = zeros (length ?t)"
    using takeWhile_zeros [of "rev xs"] by (metis rev_replicate)
  ultimately show ?thesis unfolding strip_trailing_zeros_def by metis
qed

lemma last_strip:
  assumes "strip_trailing_zeros xs \<noteq> []"
  shows "last (strip_trailing_zeros xs) \<noteq> CHR ''0''"
proof -
  let ?r = "dropWhile (\<lambda>c. c = CHR ''0'') (rev xs)"
  from assms have ne: "?r \<noteq> []" unfolding strip_trailing_zeros_def rev_is_Nil_conv .
  from hd_dropWhile [OF ne] ne show ?thesis unfolding strip_trailing_zeros_def by (simp only: last_rev not_False_eq_True)
qed

lemma digit_split_exists: "\<exists>lead tz. digit_split ds lead (significant_digits ds) tz"
proof -
  let ?core = "dropWhile (\<lambda>c. c = CHR ''0'') ds"
  obtain lead where lead: "ds = zeros lead @ ?core"
    using takeWhile_zeros [of ds] by (metis takeWhile_dropWhile_id)
  obtain tz where tz: "?core = strip_trailing_zeros ?core @ zeros tz"
    using strip_decomp by blast
  show ?thesis
  proof (cases "strip_trailing_zeros ?core = []")
    case True
    with tz have "?core = zeros tz" by simp
    moreover have "?core = [] \<or> hd ?core \<noteq> CHR ''0''"
      using hd_dropWhile [of "\<lambda>c. c = CHR ''0''" ds] by blast
    ultimately have "?core = []" by (cases tz) auto
    with lead True show ?thesis
      by (auto simp: digit_split_def significant_digits_def intro!: exI [of _ lead])
  next
    case False
    have "?core \<noteq> []"
    proof
      assume "?core = []"
      with False show False by (simp only: strip_trailing_zeros_def rev.simps dropWhile.simps simp_thms)
    qed
    then have "hd ?core \<noteq> CHR ''0''"
      using hd_dropWhile [of "\<lambda>c. c = CHR ''0''" ds] by blast
    moreover from tz False have "hd ?core = hd (strip_trailing_zeros ?core)"
      by (metis hd_append2)
    ultimately have "digit_split ds lead (strip_trailing_zeros ?core) tz"
      unfolding digit_split_def using lead tz False last_strip [OF False] by (metis (no_types, lifting))
    then show ?thesis unfolding significant_digits_def by blast
  qed
qed

lemma digit_split_val:
  "digit_split ds lead sd tz \<Longrightarrow> digs_val ds = digs_val sd * 10 ^ tz"
  by (simp add: digit_split_def)

lemma mantissa_ofI:
  "digit_split ds lead sd tz \<Longrightarrow> md_significant m = length sd \<Longrightarrow> md_trailing_zeroes m = int tz
   \<Longrightarrow> (length sd \<le> 38 \<Longrightarrow> md_digits m = sd) \<Longrightarrow> mantissa_of ds m"
  by (auto simp: mantissa_of_def)

lemma mantissa_of_default: "mantissa_of [] mantissa_default"
  by (auto simp: mantissa_of_def mantissa_default_def digit_split_def)

lemma digit_split_zero:
  assumes "digit_split ds lead sd tz"
  shows "digit_split (ds @ [CHR ''0'']) (if sd = [] then Suc lead else lead) sd
           (if sd = [] then 0 else Suc tz)"
  using assms by (auto simp: digit_split_def replicate_append_same)

lemma digit_split_nonzero:
  assumes "digit_split ds lead sd tz" and "b \<noteq> CHR ''0''"
  shows "digit_split (ds @ [b]) lead (sd @ zeros tz @ [b]) 0"
  using assms by (auto simp: digit_split_def split: if_splits)

lemma include_digit_mantissa:
  assumes "mantissa_of ds m" and "include_digit m b = Inr m'"
  shows "mantissa_of (ds @ [b]) m'"
proof -
  obtain lead sd tz where s: "digit_split ds lead sd tz" and m: "md_significant m = length sd"
    "md_trailing_zeroes m = int tz" "length sd \<le> 38 \<longrightarrow> md_digits m = sd"
    using assms(1) by (auto simp: mantissa_of_def)
  show ?thesis
  proof (cases "b = CHR ''0''")
    case True
    have "sd = [] \<longrightarrow> tz = 0" using s by (simp add: digit_split_def)
    with True assms(2) m show ?thesis
      by (intro mantissa_ofI [OF digit_split_zero [OF s, folded True]])
        (auto simp: include_digit_def result_simps checked_i64_def split: if_splits)
  next
    case False
    with assms(2) m s show ?thesis
      by (intro mantissa_ofI [OF digit_split_nonzero [OF s False]])
        (auto simp: include_digit_def result_simps checked_defs bind_eq_Some_conv split: if_splits)
  qed
qed

lemma digit_split_length: "digit_split ds lead sd tz \<Longrightarrow> length sd + tz \<le> length ds"
  by (simp add: digit_split_def)

lemma include_digit_total:
  assumes "mantissa_of ds m" and "int (length ds) < 4611686018427387904"
  shows "\<exists>m'. include_digit m b = Inr m'"
proof -
  obtain lead sd tz where s: "digit_split ds lead sd tz" and m: "md_significant m = length sd"
    "md_trailing_zeroes m = int tz"
    using assms(1) by (auto simp: mantissa_of_def)
  from digit_split_length [OF s] assms(2) have "int (length sd) + int tz < 4611686018427387904"
    by linarith
  with m show ?thesis
    by (auto simp: include_digit_def checked_defs range_defs)
qed

lemma consume_loop_sound:
  assumes "consume_loop count m s = Inr (count', m', rest)"
  shows "rest = dropWhile is_ascii_digit s \<and> count' = count + int (length (takeWhile is_ascii_digit s))
    \<and> (\<forall>pre. mantissa_of pre m \<longrightarrow> mantissa_of (pre @ takeWhile is_ascii_digit s) m')"
  using assms
proof (induction count m s rule: consume_loop.induct)
  case (2 count m byte input)
  show ?case
  proof (cases "is_ascii_digit byte")
    case True
    with "2.prems" obtain c1 m1 where c1: "checked_i64 (count + 1) = Some c1"
      and m1: "include_digit m byte = Inr m1" and r: "consume_loop c1 m1 input = Inr (count', m', rest)"
      by (auto simp: result_simps)
    have "c1 = count + 1" using c1 by (auto simp: checked_i64_def split: if_splits)
    have ih: "rest = dropWhile is_ascii_digit input
      \<and> count' = c1 + int (length (takeWhile is_ascii_digit input))
      \<and> (\<forall>pre. mantissa_of pre m1 \<longrightarrow> mantissa_of (pre @ takeWhile is_ascii_digit input) m')"
      by (rule "2.IH" [OF True _ m1 r]) (simp add: c1)
    have "mantissa_of (pre @ byte # takeWhile is_ascii_digit input) m'" if "mantissa_of pre m" for pre
      using ih include_digit_mantissa [OF that m1] by (metis append.assoc append_Cons append_Nil)
    with ih True \<open>c1 = count + 1\<close> show ?thesis by simp
  next
    case False
    with "2.prems" show ?thesis by auto
  qed
qed simp

lemma consume_loop_total:
  assumes "mantissa_of pre m" and "0 \<le> count"
    and "count + int (length s) < 4611686018427387904"
    and "int (length pre) + int (length s) < 4611686018427387904"
  shows "\<exists>m'. consume_loop count m s
    = Inr (count + int (length (takeWhile is_ascii_digit s)), m', dropWhile is_ascii_digit s)"
  using assms
proof (induction s arbitrary: count m pre)
  case (Cons b s)
  show ?case
  proof (cases "is_ascii_digit b")
    case True
    obtain m1 where m1: "include_digit m b = Inr m1"
      using include_digit_total [OF Cons.prems(1)] Cons.prems by auto
    have "\<exists>m'. consume_loop (count + 1) m1 s
      = Inr (count + 1 + int (length (takeWhile is_ascii_digit s)), m', dropWhile is_ascii_digit s)"
      using Cons.prems(2-) by (intro Cons.IH [OF include_digit_mantissa [OF Cons.prems(1) m1]]) auto
    moreover have "checked_i64 (count + 1) = Some (count + 1)"
      using Cons.prems by (simp add: checked_i64_def in_i64_def)
    ultimately show ?thesis using True m1 by (auto simp: algebra_simps)
  qed simp
qed simp

section \<open>The parser computes the denotation\<close>

text \<open>A string that fits the address space of a 64-bit process: no platform maps more than
  \<open>2 ^ 61\<close> bytes, so the counters of the parser stay far from their limits.\<close>

definition addressable :: "string \<Rightarrow> bool" where
  "addressable s \<longleftrightarrow> int (length s) < 2305843009213693952"

definition stops_digits :: "string \<Rightarrow> bool" where
  "stops_digits s \<longleftrightarrow> (s = [] \<or> \<not> is_ascii_digit (hd s))"

lemma takeWhile_digits [simp]:
  "all_digits ds \<Longrightarrow> stops_digits rest \<Longrightarrow> takeWhile is_ascii_digit (ds @ rest) = ds"
  by (induction ds) (cases rest; auto simp: stops_digits_def)+

lemma dropWhile_digits [simp]:
  "all_digits ds \<Longrightarrow> stops_digits rest \<Longrightarrow> dropWhile is_ascii_digit (ds @ rest) = rest"
  by (induction ds) (cases rest; auto simp: stops_digits_def)+

lemma stops_digits_dropWhile: "stops_digits (dropWhile is_ascii_digit s)"
  unfolding stops_digits_def using hd_dropWhile [of is_ascii_digit s] by blast

lemma exponent_loop_None:
  "exponent_loop None h s
   = (None, h \<or> takeWhile is_ascii_digit s \<noteq> [], dropWhile is_ascii_digit s)"
  by (induction s arbitrary: h) auto

lemma mult_pow_ge: "0 \<le> (v::int) \<Longrightarrow> v \<le> v * 10 ^ n"
  using mult_left_mono [of 1 "10 ^ n" v] by simp

lemma exponent_loop_Some:
  assumes "0 \<le> v"
  shows "exponent_loop (checked_i64 v) h s
    = (checked_i64 (v * 10 ^ length (takeWhile is_ascii_digit s) + int (digs_val (takeWhile is_ascii_digit s))),
       h \<or> takeWhile is_ascii_digit s \<noteq> [], dropWhile is_ascii_digit s)"
  using assms
proof (induction s arbitrary: v h)
  case (Cons c s)
  show ?case
  proof (cases "is_ascii_digit c")
    case True
    let ?tw = "takeWhile is_ascii_digit s"
    let ?v = "v * 10 + int (digit_val c)"
    have step: "Option.bind (Option.bind (checked_i64 v) (\<lambda>v. checked_i64 (v * 10)))
        (\<lambda>v. checked_i64 (v + int (digit_val c))) = checked_i64 ?v"
      using Cons.prems by (auto simp: checked_i64_def in_i64_def)
    have "exponent_loop (checked_i64 v) h (c # s) = exponent_loop (checked_i64 ?v) True s"
      using True by (simp only: exponent_loop.simps if_True step)
    also have "\<dots> = (checked_i64 (?v * 10 ^ length ?tw + int (digs_val ?tw)), True, dropWhile is_ascii_digit s)"
      using Cons.IH [of ?v True] Cons.prems by simp
    finally show ?thesis using True by (simp add: algebra_simps)
  next
    case False
    then show ?thesis by simp
  qed
qed simp

lemma checked_i64_zero: "checked_i64 0 = Some 0"
  by (simp add: checked_i64_def in_i64_def)

lemma all_digits_hd: "all_digits d \<Longrightarrow> d \<noteq> [] \<Longrightarrow> is_ascii_digit (hd d)"
  by (cases d) auto

lemma not_digit_marks [simp]:
  "\<not> is_ascii_digit (CHR ''.'')" "\<not> is_ascii_digit (CHR ''e'')" "\<not> is_ascii_digit (CHR ''E'')"
  "\<not> is_ascii_digit (CHR ''-'')" "\<not> is_ascii_digit (CHR ''+'')"
  by (simp_all add: is_ascii_digit_def)

lemma take_sign_text:
  assumes "sign_text s" and "rest = [] \<or> \<not> is_sign (hd rest)"
  shows "take_sign (s @ rest) = (s = ''-'', rest)"
  using assms by (cases rest) (auto simp: take_sign_def sign_text_def is_sign_def)

lemma digit_not_sign: "is_ascii_digit c \<Longrightarrow> \<not> is_sign c"
  by (auto simp: is_sign_def)

definition exponent_text :: "decimal_literal \<Rightarrow> string" where
  "exponent_text l = (case dl_exp l of None \<Rightarrow> [] | Some (e, s, d) \<Rightarrow> e # s @ d)"

definition exponent_fits :: "decimal_literal \<Rightarrow> bool" where
  "exponent_fits l \<longleftrightarrow> \<bar>literal_exponent l\<bar> \<le> 9223372036854775807"

lemma parse_exponent_literal:
  assumes "wf_literal l"
  shows "parse_exponent (exponent_text l)
    = (if exponent_fits l then Inr (literal_exponent l, []) else Inl ExponentOutOfRange)"
proof (cases "dl_exp l")
  case None
  then show ?thesis
    by (simp add: parse_exponent_def exponent_text_def exponent_fits_def literal_exponent_def)
next
  case (Some x)
  obtain e s d where x: "x = (e, s, d)" by (cases x)
  with Some assms have wf: "e = CHR ''e'' \<or> e = CHR ''E''" "sign_text s" "all_digits d" "d \<noteq> []"
    by (auto simp: wf_literal_def)
  have sign: "take_sign (s @ d) = (s = ''-'', d)"
    using wf all_digits_hd [OF wf(3,4)] by (intro take_sign_text) (auto dest: digit_not_sign)
  have tw: "takeWhile is_ascii_digit d = d" "dropWhile is_ascii_digit d = []"
    using takeWhile_digits [OF wf(3), of "[]"] dropWhile_digits [OF wf(3), of "[]"]
    by (simp_all add: stops_digits_def)
  have loop: "exponent_loop (Some 0) False d = (checked_i64 (int (digs_val d)), True, [])"
    using exponent_loop_Some [of 0 False d] wf(4) by (simp add: checked_i64_zero tw)
  show ?thesis
    using wf(1) Some x sign loop
    by (auto simp: parse_exponent_def exponent_text_def exponent_fits_def literal_exponent_def
        checked_i64_def in_i64_def)
qed

lemma consume_digits:
  assumes "mantissa_of pre m" "all_digits ds" "stops_digits rest" "addressable (pre @ ds @ rest)"
  shows "\<exists>m'. consume m (ds @ rest) = Inr (int (length ds), m', rest) \<and> mantissa_of (pre @ ds) m'"
proof -
  obtain m' where m': "consume m (ds @ rest) = Inr (int (length ds), m', rest)"
    using consume_loop_total [OF assms(1), of 0 "ds @ rest"] assms(2-)
    by (auto simp: consume_def addressable_def)
  with consume_loop_sound [of 0 m "ds @ rest"] assms(1-3) show ?thesis
    by (auto simp: consume_def)
qed

lemma exponent_text_stops: "wf_literal l \<Longrightarrow> stops_digits (exponent_text l)"
  by (auto simp: wf_literal_def exponent_text_def stops_digits_def split: option.splits)

lemma exponent_text_no_dot: "wf_literal l \<Longrightarrow> exponent_text l = [] \<or> hd (exponent_text l) \<noteq> CHR ''.''"
  by (auto simp: wf_literal_def exponent_text_def split: option.splits)

lemma literal_text_alt:
  "literal_text l = dl_sign l @ dl_int l @
     (case dl_frac l of None \<Rightarrow> [] | Some f \<Rightarrow> CHR ''.'' # f) @ exponent_text l"
  by (simp add: literal_text_def exponent_text_def)

lemma parse_literal:
  assumes wf: "wf_literal l" and ad: "addressable (literal_text l)"
  shows "\<exists>m. mantissa_of (literal_digits l) m \<and>
    parse_decimal_bytes (literal_text l) =
      (if exponent_fits l
       then finish m (dl_sign l = ''-'') (int (length (frac_digits l))) (literal_exponent l)
       else Inl ExponentOutOfRange)"
proof -
  let ?fr = "case dl_frac l of None \<Rightarrow> [] | Some f \<Rightarrow> CHR ''.'' # f"
  let ?body = "dl_int l @ ?fr @ exponent_text l"
  have d: "all_digits (dl_int l)" "all_digits (frac_digits l)" "dl_int l @ frac_digits l \<noteq> []"
    "sign_text (dl_sign l)"
    using wf by (auto simp: wf_literal_def)
  have body: "?body \<noteq> [] \<and> \<not> is_sign (hd ?body)"
    using d all_digits_hd [OF d(1)]
    by (cases "dl_int l") (auto simp: frac_digits_def is_sign_def digit_not_sign dest: digit_not_sign
        split: option.splits)
  have sign: "take_sign (literal_text l) = (dl_sign l = ''-'', ?body)"
    unfolding literal_text_alt using body d(4) by (intro take_sign_text) auto
  have st1: "stops_digits (?fr @ exponent_text l)"
    using exponent_text_stops [OF wf] by (auto simp: stops_digits_def split: option.splits)
  obtain m1 where m1: "consume mantissa_default ?body = Inr (int (length (dl_int l)), m1, ?fr @ exponent_text l)"
    and mo1: "mantissa_of (dl_int l) m1"
    using consume_digits [OF mantissa_of_default d(1) st1] ad
    by (auto simp: addressable_def literal_text_alt)
  have "\<exists>m2. (case ?fr @ exponent_text l of [] \<Rightarrow> Inr (0, m1, [])
               | c # rest \<Rightarrow> if c = CHR ''.'' then consume m1 rest else Inr (0, m1, ?fr @ exponent_text l))
           = Inr (int (length (frac_digits l)), m2, exponent_text l)
         \<and> mantissa_of (literal_digits l) m2"
  proof (cases "dl_frac l")
    case None
    with mo1 exponent_text_no_dot [OF wf] show ?thesis
      by (auto simp: frac_digits_def literal_digits_def split: list.splits)
  next
    case (Some f)
    with d have "all_digits f" by (simp add: frac_digits_def)
    with consume_digits [OF mo1 _ exponent_text_stops [OF wf], of f] Some ad show ?thesis
      by (auto simp: frac_digits_def literal_digits_def addressable_def literal_text_alt)
  qed
  then obtain m2 where m2: "(case ?fr @ exponent_text l of [] \<Rightarrow> Inr (0, m1, [])
               | c # rest \<Rightarrow> if c = CHR ''.'' then consume m1 rest else Inr (0, m1, ?fr @ exponent_text l))
           = Inr (int (length (frac_digits l)), m2, exponent_text l)"
    and mo2: "mantissa_of (literal_digits l) m2" by blast
  have "literal_text l \<noteq> []" using body by (auto simp: literal_text_alt)
  with sign m1 m2 d(3) parse_exponent_literal [OF wf] mo2 show ?thesis
    by (intro exI [of _ m2]) (auto simp: parse_decimal_bytes_def)
qed

lemma sign_of_text: "take_sign s = (neg, rest) \<Longrightarrow> \<exists>sg. sign_text sg \<and> s = sg @ rest"
  by (cases s) (auto simp: take_sign_def is_sign_def sign_text_def split: if_splits)

lemma fraction_of_text:
  assumes "(case s2 of [] \<Rightarrow> Inr (0, m1, []) | c # rest \<Rightarrow> if c = CHR ''.'' then consume m1 rest else Inr (0, m1, s2))
         = Inr (f, m2, s3)"
  shows "\<exists>fr. s2 = (case fr of None \<Rightarrow> [] | Some x \<Rightarrow> CHR ''.'' # x) @ s3
     \<and> all_digits (case fr of None \<Rightarrow> [] | Some x \<Rightarrow> x)
     \<and> f = int (length (case fr of None \<Rightarrow> [] | Some x \<Rightarrow> x))"
proof (cases "s2 \<noteq> [] \<and> hd s2 = CHR ''.''")
  case True
  then obtain rest where s2: "s2 = CHR ''.'' # rest" by (cases s2) auto
  with assms have "consume m1 rest = Inr (f, m2, s3)" by simp
  from consume_loop_sound [of 0, folded consume_def, OF this] s2 show ?thesis
    by (intro exI [of _ "Some (takeWhile is_ascii_digit rest)"])
      (auto simp: list_all_iff dest: set_takeWhileD)
next
  case False
  with assms show ?thesis by (intro exI [of _ None]) (auto split: list.splits if_splits)
qed

lemma exponent_of_text:
  assumes pe: "parse_exponent s3 = Inr (e, [])"
  shows "\<exists>ex. s3 = (case ex of None \<Rightarrow> [] | Some (e, s, d) \<Rightarrow> e # s @ d) \<and>
     (case ex of None \<Rightarrow> True
        | Some (e, s, d) \<Rightarrow> (e = CHR ''e'' \<or> e = CHR ''E'') \<and> sign_text s \<and> all_digits d \<and> d \<noteq> [])"
proof (cases s3)
  case Nil
  then show ?thesis by (intro exI [of _ None]) simp
next
  case (Cons c rest)
  with pe have ce: "c = CHR ''e'' \<or> c = CHR ''E''" by (auto simp: parse_exponent_def split: if_splits)
  obtain ng rest1 where r1: "take_sign rest = (ng, rest1)" by (cases "take_sign rest")
  then obtain sx where sx: "sign_text sx" "rest = sx @ rest1" using sign_of_text by blast
  let ?d = "takeWhile is_ascii_digit rest1"
  have "exponent_loop (Some 0) False rest1
    = (checked_i64 (int (digs_val ?d)), ?d \<noteq> [], dropWhile is_ascii_digit rest1)"
    using exponent_loop_Some [of 0 False rest1] by (simp add: checked_i64_zero)
  with pe Cons ce r1 have d: "?d \<noteq> []" "dropWhile is_ascii_digit rest1 = []"
    by (auto simp: parse_exponent_def result_simps split: if_splits)
  have "rest1 = ?d" using d(2) by (metis append_Nil2 takeWhile_dropWhile_id)
  moreover have "all_digits ?d" by (auto simp: list_all_iff dest: set_takeWhileD)
  ultimately show ?thesis using Cons sx ce d(1) by (intro exI [of _ "Some (c, sx, ?d)"]) auto
qed

text \<open>Only decimal literals are accepted.\<close>

lemma literal_of_text:
  assumes "parse_decimal_bytes s = Inr n"
  shows "\<exists>l. wf_literal l \<and> literal_text l = s"
proof -
  obtain neg s1 where s1: "take_sign s = (neg, s1)" by (cases "take_sign s")
  from assms have "s \<noteq> []" by (auto simp: parse_decimal_bytes_def)
  obtain sg where sg: "sign_text sg" "s = sg @ s1" using sign_of_text [OF s1] by blast
  from assms s1 \<open>s \<noteq> []\<close> obtain i m1 s2 where c1: "consume mantissa_default s1 = Inr (i, m1, s2)"
    by (auto simp: parse_decimal_bytes_def result_simps)
  let ?ip = "takeWhile is_ascii_digit s1"
  from consume_loop_sound [of 0, folded consume_def, OF c1]
  have ip: "s1 = ?ip @ s2" "i = int (length ?ip)" "all_digits ?ip"
    by (auto simp: list_all_iff dest: set_takeWhileD)
  from assms s1 c1 \<open>s \<noteq> []\<close> obtain f m2 s3 where
    c2: "(case s2 of [] \<Rightarrow> Inr (0, m1, []) | c # rest \<Rightarrow> if c = CHR ''.'' then consume m1 rest else Inr (0, m1, s2))
         = Inr (f, m2, s3)" and nz: "\<not> (i = 0 \<and> f = 0)"
    by (auto simp: parse_decimal_bytes_def result_simps split: if_splits)
  from fraction_of_text [OF c2] obtain fr
    where fr: "s2 = (case fr of None \<Rightarrow> [] | Some x \<Rightarrow> CHR ''.'' # x) @ s3"
      "all_digits (case fr of None \<Rightarrow> [] | Some x \<Rightarrow> x)"
      "f = int (length (case fr of None \<Rightarrow> [] | Some x \<Rightarrow> x))" by blast
  from assms s1 c1 c2 nz \<open>s \<noteq> []\<close> obtain e where "parse_exponent s3 = Inr (e, [])"
    by (auto simp: parse_decimal_bytes_def result_simps split: if_splits)
  from exponent_of_text [OF this] obtain ex
    where ex: "s3 = (case ex of None \<Rightarrow> [] | Some (e, s, d) \<Rightarrow> e # s @ d)"
      "case ex of None \<Rightarrow> True
        | Some (e, s, d) \<Rightarrow> (e = CHR ''e'' \<or> e = CHR ''E'') \<and> sign_text s \<and> all_digits d \<and> d \<noteq> []" by blast
  let ?l = "\<lparr>dl_sign = sg, dl_int = ?ip, dl_frac = fr, dl_exp = ex\<rparr>"
  have "wf_literal ?l" using sg ip fr ex nz by (auto simp: wf_literal_def frac_digits_def)
  moreover have "literal_text ?l = s" using sg ip fr ex by (simp add: literal_text_def)
  ultimately show ?thesis by blast
qed

section \<open>Values of accepted numbers\<close>

lemma powi_add: "(10::rat) powi (k + int t) = 10 powi k * 10 ^ t"
  using power_int_add [of "10::rat" k "int t"] by simp

lemma digs_val_lower:
  assumes "all_digits sd" "sd \<noteq> []" "hd sd \<noteq> CHR ''0''"
  shows "10 ^ (length sd - 1) \<le> digs_val sd"
proof -
  obtain d ds where sd: "sd = d # ds" using assms(2) by (cases sd) auto
  with assms have "0 < digit_val d" by (simp add: digit_val_pos)
  then have "10 ^ length ds \<le> digit_val d * 10 ^ length ds" by simp
  with sd show ?thesis by (simp del: mult_le_cancel2 add: trans_le_add1)
qed

text \<open>A scaled mantissa lies in its decade.\<close>

lemma decade_bounds:
  fixes k :: int
  assumes "all_digits sd" "sd \<noteq> []" "hd sd \<noteq> CHR ''0''"
  defines "a \<equiv> k + int (length sd) - 1"
  shows "10 powi a \<le> (of_nat (digs_val sd) * 10 powi k :: rat)"
    and "(of_nat (digs_val sd) * 10 powi k :: rat) < 10 powi (a + 1)"
proof -
  have len: "int (length sd) - 1 = int (length sd - 1)" using assms(2) by (cases sd) auto
  have "(of_nat (10 ^ (length sd - 1)) :: rat) \<le> of_nat (digs_val sd)"
    using digs_val_lower [OF assms(1-3)] by (simp only: of_nat_le_iff)
  then have "10 ^ (length sd - 1) * 10 powi k \<le> (of_nat (digs_val sd) * 10 powi k :: rat)"
    by (intro mult_right_mono) auto
  moreover have "(10 :: rat) powi a = 10 ^ (length sd - 1) * 10 powi k"
  proof -
    have a: "a = k + int (length sd - 1)" unfolding a_def using len by linarith
    show ?thesis unfolding a powi_add by (rule mult.commute)
  qed
  ultimately show "10 powi a \<le> (of_nat (digs_val sd) * 10 powi k :: rat)" by simp
  have "(of_nat (digs_val sd) :: rat) < of_nat (10 ^ length sd)"
    using digs_val_bound [OF assms(1)] by (simp only: of_nat_less_iff)
  then have "(of_nat (digs_val sd) * 10 powi k :: rat) < 10 ^ length sd * 10 powi k"
    by (intro mult_strict_right_mono) auto
  moreover have "(10 :: rat) powi (a + 1) = 10 ^ length sd * 10 powi k"
  proof -
    have a: "a + 1 = k + int (length sd)" by (simp add: a_def)
    show ?thesis unfolding a powi_add by (rule mult.commute)
  qed
  ultimately show "(of_nat (digs_val sd) * 10 powi k :: rat) < 10 powi (a + 1)" by simp
qed

lemma number_decade:
  assumes "wf_number n" "\<not> pn_is_zero n"
  shows "10 powi (pn_adjusted_exponent n) \<le> \<bar>number_value n\<bar>"
    and "\<bar>number_value n\<bar> < 10 powi (pn_adjusted_exponent n + 1)"
proof -
  let ?k = "pn_adjusted_exponent n - int (length (pn_digits n)) + 1"
  have wf: "all_digits (pn_digits n)" "pn_digits n \<noteq> []" "hd (pn_digits n) \<noteq> CHR ''0''"
    using assms by (auto simp: wf_number_def)
  have k: "?k + int (length (pn_digits n)) - 1 = pn_adjusted_exponent n" by simp
  have abs: "\<bar>number_value n\<bar> = of_nat (digs_val (pn_digits n)) * 10 powi ?k"
    using assms(2) by (simp add: number_value_def abs_mult)
  show "10 powi (pn_adjusted_exponent n) \<le> \<bar>number_value n\<bar>"
    using decade_bounds(1) [OF wf, of ?k] unfolding k abs .
  show "\<bar>number_value n\<bar> < 10 powi (pn_adjusted_exponent n + 1)"
    using decade_bounds(2) [OF wf, of ?k] unfolding k abs .
qed

lemma powi_less_cancel: "(10::rat) powi a < 10 powi b \<longleftrightarrow> a < b"
  using power_int_strict_increasing [of a b "10::rat"] power_int_increasing [of b a "10::rat"]
  by (cases "a < b") (auto simp: not_less)

lemma decade_unique:
  fixes x :: rat
  assumes "10 powi a \<le> x" "x < 10 powi (b + 1)"
  shows "a \<le> b"
proof -
  have "(10::rat) powi a < 10 powi (b + 1)" using assms by (rule le_less_trans)
  then show ?thesis by (simp add: powi_less_cancel)
qed

lemma number_value_zero_iff: "wf_number n \<Longrightarrow> number_value n = 0 \<longleftrightarrow> pn_is_zero n"
proof
  assume wf: "wf_number n" and "number_value n = 0"
  show "pn_is_zero n"
  proof (rule ccontr)
    assume "\<not> pn_is_zero n"
    from number_decade(1) [OF wf this] \<open>number_value n = 0\<close>
    have "(10::rat) powi pn_adjusted_exponent n \<le> 0" by simp
    moreover have "(0::rat) < 10 powi pn_adjusted_exponent n" by simp
    ultimately show False by linarith
  qed
qed (simp add: number_value_def)

lemma range_iff:
  assumes "wf_number n" "\<not> pn_is_zero n"
  shows "in_dynamodb_range n \<longleftrightarrow> 10 powi (- 130) \<le> \<bar>number_value n\<bar> \<and> \<bar>number_value n\<bar> < 10 powi 126"
proof
  note b = number_decade [OF assms]
  assume r: "in_dynamodb_range n"
  then have "(10::rat) powi (- 130) \<le> 10 powi (pn_adjusted_exponent n)"
    "(10::rat) powi (pn_adjusted_exponent n + 1) \<le> 10 powi 126"
    unfolding in_dynamodb_range_def by (intro power_int_increasing; simp)+
  with b show "10 powi (- 130) \<le> \<bar>number_value n\<bar> \<and> \<bar>number_value n\<bar> < 10 powi 126"
    by linarith
next
  note b = number_decade [OF assms]
  assume "10 powi (- 130) \<le> \<bar>number_value n\<bar> \<and> \<bar>number_value n\<bar> < 10 powi 126"
  then show "in_dynamodb_range n"
    using decade_unique [OF _ b(2), of "- 130"] decade_unique [OF b(1), of 125]
    by (auto simp: in_dynamodb_range_def)
qed

text \<open>What \<open>finish\<close> makes of a mantissa.\<close>

definition adjusted_of :: "nat \<Rightarrow> int \<Rightarrow> int \<Rightarrow> nat \<Rightarrow> int" where
  "adjusted_of sig exponent fractional tz = int sig + exponent - fractional + int tz - 1"

lemma finish_mantissa:
  assumes "mantissa_of ds m" "all_digits ds" "finish m neg f e = Inr n"
  shows "wf_number n" "number_value n = (if neg then - 1 else 1) * of_nat (digs_val ds) * 10 powi (e - f)"
proof -
  obtain lead sd tz where s: "digit_split ds lead sd tz" and m: "md_significant m = length sd"
    "md_trailing_zeroes m = int tz" "length sd \<le> 38 \<longrightarrow> md_digits m = sd"
    using assms(1) by (auto simp: mantissa_of_def)
  have sd: "all_digits sd" using s assms(2) by (auto simp: digit_split_def)
  have v: "digs_val ds = digs_val sd * 10 ^ tz" by (rule digit_split_val [OF s])
  have "wf_number n \<and> number_value n = (if neg then - 1 else 1) * of_nat (digs_val ds) * 10 powi (e - f)"
  proof (cases "sd = []")
    case True
    with assms(3) m v show ?thesis
      by (auto simp: finish_def wf_number_def number_value_def)
  next
    case False
    with assms(3) m have n: "n = \<lparr>pn_negative = neg, pn_adjusted_exponent = adjusted_of (length sd) e f tz,
        pn_digits = sd, pn_is_zero = False\<rparr>" and le: "length sd \<le> 38"
      by (auto simp: finish_def result_simps bind_eq_Some_conv checked_defs adjusted_of_def split: if_splits)
    have "adjusted_of (length sd) e f tz - int (length sd) + 1 = (e - f) + int tz"
      by (simp add: adjusted_of_def)
    then have "(10::rat) powi (adjusted_of (length sd) e f tz - int (length sd) + 1) = 10 powi (e - f) * 10 ^ tz"
      by (simp only: powi_add)
    with n v have "number_value n = (if neg then - 1 else 1) * of_nat (digs_val ds) * 10 powi (e - f)"
      by (simp add: number_value_def)
    moreover have "wf_number n" using n le False sd s by (simp add: wf_number_def digit_split_def)
    ultimately show ?thesis by blast
  qed
  then show "wf_number n" "number_value n = (if neg then - 1 else 1) * of_nat (digs_val ds) * 10 powi (e - f)"
    by blast+
qed

lemma literal_digits_ok: "wf_literal l \<Longrightarrow> all_digits (literal_digits l)"
  by (simp add: wf_literal_def literal_digits_def)

lemma parse_literal_value:
  assumes wf: "wf_literal l" and ad: "addressable (literal_text l)"
    and p: "parse_decimal_bytes (literal_text l) = Inr n"
  shows "wf_number n" "number_value n = literal_value l"
proof -
  from parse_literal [OF wf ad] p obtain m where m: "mantissa_of (literal_digits l) m"
    and f: "finish m (dl_sign l = ''-'') (int (length (frac_digits l))) (literal_exponent l) = Inr n"
    by (auto split: if_splits)
  from finish_mantissa [OF m literal_digits_ok [OF wf] f]
  show "wf_number n" "number_value n = literal_value l" by (simp_all add: literal_value_def)
qed

lemma parse_decimal_wf:
  assumes "parse_decimal_bytes s = Inr n" "addressable s" shows "wf_number n"
  using literal_of_text [OF assms(1)] parse_literal_value(1) assms by blast

lemma parse_wf:
  assumes "parse s = Inr n" "addressable s"
  shows "wf_number n" "in_dynamodb_range n"
  using assms parse_decimal_wf
  by (auto simp: parse_def parse_bytes_def in_dynamodb_range_def result_simps split: if_splits)

lemma digit_split_unique:
  assumes "digit_split ds lead sd tz" "digit_split ds lead' sd' tz'" "all_digits ds"
  shows "sd' = sd" "tz' = tz"
proof -
  show sd: "sd' = sd" using digit_split_significant assms by metis
  show "tz' = tz"
  proof (cases "sd = []")
    case True
    with assms sd show ?thesis by (simp add: digit_split_def)
  next
    case False
    with assms(1,3) have "0 < digs_val sd"
      using digs_val_lower [of sd] less_le_trans [of 0 "10 ^ (length sd - 1)" "digs_val sd"]
      by (auto simp: digit_split_def)
    with digit_split_val [OF assms(1)] digit_split_val [OF assms(2)] sd show ?thesis by simp
  qed
qed

lemma finish_exact:
  assumes m: "mantissa_of ds m" and ds: "all_digits ds" and s: "digit_split ds lead sd tz"
    and sd: "sd \<noteq> []" "length sd \<le> 38" and len: "int (length ds) < 4611686018427387904"
    and e: "\<bar>e\<bar> \<le> 4611686018427387904" and f: "0 \<le> f" "f \<le> int (length ds)"
    and a: "in_i32 (adjusted_of (length sd) e f tz)"
  shows "finish m neg f e = Inr \<lparr>pn_negative = neg, pn_adjusted_exponent = adjusted_of (length sd) e f tz,
    pn_digits = sd, pn_is_zero = False\<rparr>"
proof -
  obtain lead' sd' tz' where s': "digit_split ds lead' sd' tz'" and m: "md_significant m = length sd'"
    "md_trailing_zeroes m = int tz'" "length sd' \<le> 38 \<longrightarrow> md_digits m = sd'"
    using m by (auto simp: mantissa_of_def)
  have eq: "sd' = sd" "tz' = tz" using digit_split_unique [OF s s' ds] by auto
  have tz: "int tz < 4611686018427387904" using digit_split_length [OF s] len by linarith
  have "in_i64 (int (length sd))" "in_i64 (int (length sd) + e)" "in_i64 (int (length sd) + e - f)"
    "in_i64 (int (length sd) + e - f + int tz)" "in_i64 (adjusted_of (length sd) e f tz)"
    using sd e f a tz len unfolding in_i64_def adjusted_of_def in_i32_def by (auto simp: abs_le_iff)
  then show ?thesis using m sd a unfolding eq
    by (simp add: finish_def checked_i64_def checked_i32_def adjusted_of_def)
qed

lemma literal_nonzero_significant:
  assumes "literal_value l \<noteq> 0" shows "significant_digits (literal_digits l) \<noteq> []"
proof
  assume "significant_digits (literal_digits l) = []"
  with digit_split_exists [of "literal_digits l"] have "digs_val (literal_digits l) = 0"
    by (auto dest!: digit_split_val)
  with assms show False by (simp add: literal_value_def)
qed

end
