(* ===== verification/Number_Text.thy ===== *)
theory Number_Text
  imports Number_Semantics
begin

text \<open>
  Which texts the number parsers accept, and the texts they print: the canonical decimal form,
  the scientific form and the projection written to storage. Each printed form is the text of a
  literal (\<open>canonical_literal\<close>, \<open>scientific_literal\<close>) whose digit split is known, so that
  \<open>parse_exact\<close> gives its parse.
\<close>

section \<open>Acceptance\<close>

lemma parse_exact:
  assumes wf: "wf_literal l" and ad: "addressable (literal_text l)"
    and s: "digit_split (literal_digits l) lead sd tz" and sd: "sd \<noteq> []" "length sd \<le> 38"
    and e: "\<bar>literal_exponent l\<bar> \<le> 4611686018427387904"
    and a: "in_i32 (adjusted_of (length sd) (literal_exponent l) (int (length (frac_digits l))) tz)"
  shows "parse_decimal_bytes (literal_text l) = Inr \<lparr>pn_negative = (dl_sign l = ''-''),
    pn_adjusted_exponent = adjusted_of (length sd) (literal_exponent l) (int (length (frac_digits l))) tz,
    pn_digits = sd, pn_is_zero = False\<rparr>"
proof -
  from parse_literal [OF wf ad] obtain m where m: "mantissa_of (literal_digits l) m"
    and p: "parse_decimal_bytes (literal_text l) =
      (if exponent_fits l
       then finish m (dl_sign l = ''-'') (int (length (frac_digits l))) (literal_exponent l)
       else Inl ExponentOutOfRange)" by blast
  have len: "int (length (literal_digits l)) < 4611686018427387904"
    "int (length (frac_digits l)) \<le> int (length (literal_digits l))"
    using ad by (auto simp: addressable_def literal_text_alt literal_digits_def frac_digits_def
        split: option.splits)
  have "exponent_fits l" using e by (simp add: exponent_fits_def)
  with p finish_exact [OF m literal_digits_ok [OF wf] s sd len(1) e _ len(2) a] show ?thesis by simp
qed

lemma literal_abs:
  "digit_split (literal_digits l) lead sd tz \<Longrightarrow>
   \<bar>literal_value l\<bar> = of_nat (digs_val sd) * 10 powi (literal_exponent l - int (length (frac_digits l)) + int tz)"
  by (simp add: literal_value_def abs_mult powi_add digit_split_val)

lemma parse_decades:
  assumes wf: "wf_literal l" and ad: "addressable (literal_text l)" and nz: "literal_value l \<noteq> 0"
    and prec: "length (significant_digits (literal_digits l)) \<le> 38"
    and lo: "10 powi lo \<le> \<bar>literal_value l\<bar>" and hi: "\<bar>literal_value l\<bar> < 10 powi (hi + 1)"
    and bound: "- 1000 \<le> lo" "hi \<le> 1000"
  shows "\<exists>n. parse_decimal_bytes (literal_text l) = Inr n \<and> lo \<le> pn_adjusted_exponent n
    \<and> pn_adjusted_exponent n \<le> hi"
proof -
  let ?e = "literal_exponent l" and ?f = "int (length (frac_digits l))"
  let ?sd = "significant_digits (literal_digits l)"
  obtain lead tz where s: "digit_split (literal_digits l) lead ?sd tz"
    using digit_split_exists by blast
  have sd: "?sd \<noteq> []" by (rule literal_nonzero_significant [OF nz])
  have "literal_digits l = zeros lead @ ?sd @ zeros tz" "hd ?sd \<noteq> CHR ''0''"
    using s sd unfolding digit_split_def by auto
  then have sdd: "all_digits ?sd" "hd ?sd \<noteq> CHR ''0''"
    using literal_digits_ok [OF wf] by (metis list_all_append, simp)
  let ?a = "adjusted_of (length ?sd) ?e ?f tz"
  have a: "?e - ?f + int tz + int (length ?sd) - 1 = ?a" by (simp add: adjusted_of_def)
  note b = decade_bounds [OF sdd(1) sd sdd(2), of "?e - ?f + int tz", unfolded a, folded literal_abs [OF s]]
  have r: "lo \<le> ?a" "?a \<le> hi"
    using decade_unique [OF lo b(2)] decade_unique [OF b(1) hi] by auto
  have len: "int (length (literal_digits l)) < 2305843009213693952"
    "int (length (frac_digits l)) \<le> int (length (literal_digits l))"
    using ad by (auto simp: addressable_def literal_text_alt literal_digits_def frac_digits_def
        split: option.splits)
  have e: "\<bar>?e\<bar> \<le> 4611686018427387904" and i: "in_i32 ?a"
    using r bound digit_split_length [OF s] len unfolding abs_le_iff in_i32_def
    by (auto simp: adjusted_of_def)
  show ?thesis using parse_exact [OF wf ad s sd prec e i] r by simp
qed

lemma parse_decimal_precision:
  assumes wf: "wf_literal l" and ad: "addressable (literal_text l)"
    and p: "parse_decimal_bytes (literal_text l) = Inr n"
  shows "length (significant_digits (literal_digits l)) \<le> 38"
proof -
  from parse_literal [OF wf ad] p obtain m where m: "mantissa_of (literal_digits l) m"
    and f: "finish m (dl_sign l = ''-'') (int (length (frac_digits l))) (literal_exponent l) = Inr n"
    by (auto split: if_splits)
  have "md_significant m = length (significant_digits (literal_digits l))"
    using m digit_split_significant literal_digits_ok [OF wf] unfolding mantissa_of_def by metis
  with f show ?thesis by (auto simp: finish_def result_simps split: if_splits)
qed

section \<open>Canonical text\<close>

text \<open>The literal that \<open>canonical_string\<close> and the scientific form print.\<close>

definition canonical_literal :: "parsed_number \<Rightarrow> decimal_literal" where
  "canonical_literal n =
     (let ds = pn_digits n; p = pn_adjusted_exponent n + 1 in
      \<lparr>dl_sign = (if pn_negative n then ''-'' else ''''),
       dl_int = (if p \<le> 0 then ''0'' else if nat p \<ge> length ds then ds @ zeros (nat p - length ds)
                 else take (nat p) ds),
       dl_frac = (if p \<le> 0 then Some (zeros (nat (- p)) @ ds)
                  else if nat p \<ge> length ds then None else Some (drop (nat p) ds)),
       dl_exp = None\<rparr>)"

lemma all_digits_zeros [simp]: "all_digits (zeros n)"
  by (simp add: list_all_iff is_ascii_digit_def)

lemma all_digits_take_drop:
  "all_digits ds \<Longrightarrow> all_digits (take k ds)" "all_digits ds \<Longrightarrow> all_digits (drop k ds)"
  by (auto simp: list_all_iff dest: in_set_takeD in_set_dropD)

lemma canonical_literal_text:
  "\<not> pn_is_zero n \<Longrightarrow> literal_text (canonical_literal n) = canonical_string n"
  by (simp add: canonical_literal_def literal_text_def canonical_string_def Let_def)

lemma canonical_literal_wf:
  assumes "wf_number n" "\<not> pn_is_zero n" shows "wf_literal (canonical_literal n)"
  using assms by (auto simp: wf_literal_def canonical_literal_def wf_number_def frac_digits_def Let_def
      sign_text_def all_digits_take_drop is_ascii_digit_def)

lemma canonical_literal_split:
  assumes "wf_number n" "\<not> pn_is_zero n"
  obtains lead tz where "digit_split (literal_digits (canonical_literal n)) lead (pn_digits n) tz"
    "adjusted_of (length (pn_digits n)) 0 (int (length (frac_digits (canonical_literal n)))) tz
       = pn_adjusted_exponent n"
proof -
  let ?p = "pn_adjusted_exponent n + 1" and ?ds = "pn_digits n" and ?l = "canonical_literal n"
  have ds: "?ds \<noteq> []" "hd ?ds \<noteq> CHR ''0''" "last ?ds \<noteq> CHR ''0''"
    using assms by (auto simp: wf_number_def)
  consider (small) "?p \<le> 0" | (whole) "0 < ?p" "length ?ds \<le> nat ?p"
    | (mixed) "0 < ?p" "nat ?p < length ?ds" by linarith
  then show ?thesis
  proof cases
    case small
    have "digit_split (literal_digits ?l) (Suc (nat (- ?p))) ?ds 0"
      using small ds by (simp add: digit_split_def literal_digits_def canonical_literal_def frac_digits_def Let_def)
    moreover have "adjusted_of (length ?ds) 0 (int (length (frac_digits ?l))) 0 = pn_adjusted_exponent n"
      using small by (simp add: adjusted_of_def canonical_literal_def frac_digits_def Let_def)
    ultimately show ?thesis by (rule that)
  next
    case whole
    have "digit_split (literal_digits ?l) 0 ?ds (nat ?p - length ?ds)"
      using whole ds by (simp add: digit_split_def literal_digits_def canonical_literal_def frac_digits_def Let_def)
    moreover have "adjusted_of (length ?ds) 0 (int (length (frac_digits ?l))) (nat ?p - length ?ds)
       = pn_adjusted_exponent n" using whole
      by (simp add: adjusted_of_def canonical_literal_def frac_digits_def Let_def)
    ultimately show ?thesis by (rule that)
  next
    case mixed
    have "digit_split (literal_digits ?l) 0 ?ds 0"
      using mixed ds by (simp add: digit_split_def literal_digits_def canonical_literal_def frac_digits_def Let_def)
    moreover have "adjusted_of (length ?ds) 0 (int (length (frac_digits ?l))) 0 = pn_adjusted_exponent n"
      using mixed by (simp add: adjusted_of_def canonical_literal_def frac_digits_def Let_def)
    ultimately show ?thesis by (rule that)
  qed
qed

lemma canonical_length:
  assumes "wf_number n" "in_dynamodb_range n" shows "length (canonical_string n) \<le> 171"
  using assms by (auto simp: canonical_string_def wf_number_def in_dynamodb_range_def Let_def)

lemma parse_canonical:
  assumes "wf_number n" "in_dynamodb_range n" shows "parse (canonical_string n) = Inr n"
proof (cases "pn_is_zero n")
  case True
  then have "n = \<lparr>pn_negative = False, pn_adjusted_exponent = 0, pn_digits = [], pn_is_zero = True\<rparr>"
    using assms(1) by (simp add: wf_number_def)
  then show ?thesis by (simp, code_simp)
next
  case False
  let ?l = "canonical_literal n"
  obtain lead tz where s: "digit_split (literal_digits ?l) lead (pn_digits n) tz"
    and a: "adjusted_of (length (pn_digits n)) 0 (int (length (frac_digits ?l))) tz = pn_adjusted_exponent n"
    using canonical_literal_split [OF assms(1) False] .
  have e: "literal_exponent ?l = 0" by (simp add: literal_exponent_def canonical_literal_def Let_def)
  have sg: "(dl_sign ?l = ''-'') = pn_negative n" by (simp add: canonical_literal_def Let_def)
  have ad: "addressable (canonical_string n)"
    using canonical_length [OF assms] by (simp add: addressable_def)
  have "parse_decimal_bytes (literal_text ?l) = Inr n"
    using parse_exact [OF canonical_literal_wf [OF assms(1) False] _ s] assms False ad
    by (simp add: canonical_literal_text e a sg wf_number_def in_dynamodb_range_def in_i32_def)
  then show ?thesis using assms(2)
    by (simp add: canonical_literal_text [OF False] parse_def parse_bytes_def in_dynamodb_range_def)
qed

section \<open>Scientific text and the write projection\<close>

lemma digit_char_ok: "n < 10 \<Longrightarrow> is_ascii_digit (digit_char n) \<and> digit_val (digit_char n) = n"
proof -
  assume "n < 10"
  then have "n \<in> {0,1,2,3,4,5,6,7,8,9}" by auto
  then show ?thesis by (elim insertE) (simp_all, (code_simp)+)
qed

lemma string_of_nat_digits:
  "all_digits (string_of_nat n) \<and> string_of_nat n \<noteq> [] \<and> digs_val (string_of_nat n) = n"
proof (induction n rule: string_of_nat.induct)
  case (1 n)
  show ?case
  proof (cases "n < 10")
    case True
    then show ?thesis using digit_char_ok [OF True]
      by (simp add: string_of_nat.simps [of n] digs_val_Cons)
  next
    case False
    then show ?thesis using 1 digit_char_ok [of "n mod 10"]
      by (simp add: string_of_nat.simps [of n] digs_val_append digs_val_Cons)
  qed
qed

definition scientific_literal :: "parsed_number \<Rightarrow> decimal_literal" where
  "scientific_literal n =
     (let e = pn_adjusted_exponent n - (int (length (pn_digits n)) - 1) in
      \<lparr>dl_sign = (if pn_negative n then ''-'' else ''''), dl_int = pn_digits n, dl_frac = None,
       dl_exp = Some (CHR ''e'', if e < 0 then ''-'' else '''', string_of_nat (nat \<bar>e\<bar>))\<rparr>)"

lemma scientific_literal_text:
  "literal_text (scientific_literal n) =
     (if pn_negative n then ''-'' else '''') @ pn_digits n @ ''e''
     @ string_of_int (pn_adjusted_exponent n - (int (length (pn_digits n)) - 1))"
  by (auto simp: literal_text_def scientific_literal_def string_of_int_def Let_def)

lemma scientific_literal_fields:
  "frac_digits (scientific_literal n) = []" "literal_digits (scientific_literal n) = pn_digits n"
  "literal_exponent (scientific_literal n) = pn_adjusted_exponent n - (int (length (pn_digits n)) - 1)"
  "dl_sign (scientific_literal n) = ''-'' \<longleftrightarrow> pn_negative n"
  using string_of_nat_digits
  by (auto simp: frac_digits_def literal_digits_def literal_exponent_def scientific_literal_def Let_def)

lemma scientific_literal_wf:
  assumes "wf_number n" "\<not> pn_is_zero n" shows "wf_literal (scientific_literal n)"
  using assms string_of_nat_digits
  by (auto simp: wf_literal_def scientific_literal_def wf_number_def frac_digits_def Let_def sign_text_def)

lemma parse_scientific:
  assumes "wf_number n" "\<not> pn_is_zero n" "in_dynamodb_range n"
    and ad: "addressable (literal_text (scientific_literal n))"
  shows "parse (literal_text (scientific_literal n)) = Inr n"
proof -
  let ?l = "scientific_literal n"
  have s: "digit_split (literal_digits ?l) 0 (pn_digits n) 0"
    using assms by (simp add: digit_split_def scientific_literal_fields wf_number_def)
  have a: "adjusted_of (length (pn_digits n)) (literal_exponent ?l) (int (length (frac_digits ?l))) 0
    = pn_adjusted_exponent n"
    by (simp add: adjusted_of_def scientific_literal_fields)
  have "\<bar>literal_exponent ?l\<bar> \<le> 4611686018427387904"
    using assms unfolding abs_le_iff
    by (auto simp: scientific_literal_fields in_dynamodb_range_def wf_number_def)
  then have "parse_decimal_bytes (literal_text ?l) = Inr n"
    using parse_exact [OF scientific_literal_wf [OF assms(1,2)] ad s, unfolded a] assms
    by (simp add: scientific_literal_fields wf_number_def in_dynamodb_range_def in_i32_def)
  then show ?thesis using assms(3)
    by (simp add: parse_def parse_bytes_def in_dynamodb_range_def)
qed

lemma project_sound:
  assumes "project_dynamodb_number_from_bytes s = Inr t" "addressable s"
  shows "parse t = parse s \<and> length t \<le> WRITE_NUMBER_BYTES"
proof -
  obtain n where n: "parse s = Inr n"
    using assms(1) by (auto simp: project_dynamodb_number_from_bytes_def parse_def result_simps)
  note wf = parse_wf [OF n assms(2)]
  note c = parse_canonical [OF wf] canonical_length [OF wf]
  let ?sc = "literal_text (scientific_literal n)"
  from assms(1) n consider "length s \<le> 171" "t = s" | "t = canonical_string n"
    | "\<not> pn_is_zero n" "t = ?sc" "length ?sc < length (canonical_string n)"
    by (auto simp: project_dynamodb_number_from_bytes_def parse_def result_simps Let_def
        scientific_literal_text split: if_splits)
  then show ?thesis
  proof cases
    case 3
    then have "addressable ?sc" using c(2) by (simp add: addressable_def)
    with 3 c n parse_scientific [OF wf(1) 3(1) wf(2)] show ?thesis by simp
  qed (use n c in \<open>simp_all\<close>)
qed

lemma parse_iff_decimal:
  "parse s = Inr n \<longleftrightarrow> parse_decimal_bytes s = Inr n \<and> in_dynamodb_range n"
  by (cases "parse_decimal_bytes s")
    (auto simp: parse_def parse_bytes_def in_dynamodb_range_def split: if_splits)

lemma parse_value_of_text:
  assumes "parse_decimal_bytes s = Inr n" "addressable s"
  obtains l where "wf_literal l" "literal_text l = s" "number_value n = literal_value l"
  using literal_of_text [OF assms(1)] parse_literal_value(2) assms by blast

lemma digs_val_power:
  assumes "all_digits ds" "ds \<noteq> []" "last ds \<noteq> CHR ''0''" "digs_val ds = 10 ^ (length ds - 1)"
  shows "ds = ''1''"
proof -
  obtain es d where ds: "ds = es @ [d]" using assms(2) by (metis rev_exhaust)
  have d: "is_ascii_digit d" "0 < digit_val d" "digit_val d < 10"
    using assms(1,3) digit_val_pos [of d] digit_val_le [of d] by (auto simp: ds)
  have v: "digs_val es * 10 + digit_val d = 10 ^ length es"
    using assms(4) by (simp add: ds digs_val_append digs_val_Cons)
  have "es = []"
  proof (rule ccontr)
    assume "es \<noteq> []"
    then have "(10::nat) ^ length es mod 10 = 0" by (cases es) auto
    with v d(2,3) show False by (metis add.commute less_not_refl3 mod_less mod_mult_self1)
  qed
  with v d(1) have "of_char d = (of_char (CHR ''1'') :: nat)"
    by (auto simp: is_ascii_digit_def digit_val_def)
  then have "d = CHR ''1''" by (simp only: of_char_eq_iff)
  with \<open>es = []\<close> ds show ?thesis by simp
qed

lemma decade_start:
  assumes "wf_number n" "\<not> pn_is_zero n"
  shows "\<bar>number_value n\<bar> = 10 powi pn_adjusted_exponent n \<longleftrightarrow> pn_digits n = ''1''"
proof
  let ?k = "pn_adjusted_exponent n - int (length (pn_digits n)) + 1" and ?ds = "pn_digits n"
  assume v: "\<bar>number_value n\<bar> = 10 powi pn_adjusted_exponent n"
  have ds: "all_digits ?ds" "?ds \<noteq> []" "last ?ds \<noteq> CHR ''0''" using assms by (auto simp: wf_number_def)
  have a: "?k + int (length ?ds - 1) = pn_adjusted_exponent n" using ds(2) by (cases ?ds) auto
  note pw = powi_add [of ?k "length ?ds - 1", unfolded a]
  from v pw assms have "(of_nat (digs_val ?ds) :: rat) * 10 powi ?k = 10 ^ (length ?ds - 1) * 10 powi ?k"
    by (cases "pn_negative n") (simp_all add: number_value_def abs_mult mult.commute)
  then have "(of_nat (digs_val ?ds) :: rat) = of_nat (10 ^ (length ?ds - 1))" by simp
  then show "?ds = ''1''" using digs_val_power [OF ds] by (simp only: of_nat_eq_iff)
qed (use assms in \<open>simp add: number_value_def abs_mult digs_val_Cons digit_val_def\<close>)

lemma sqs_range_iff:
  assumes "wf_number n" "\<not> pn_is_zero n"
  shows "- 128 \<le> pn_adjusted_exponent n
      \<and> (pn_adjusted_exponent n < 126 \<or> pn_adjusted_exponent n = 126 \<and> pn_digits n = ''1'') \<longleftrightarrow>
    10 powi (- 128) \<le> \<bar>number_value n\<bar> \<and> \<bar>number_value n\<bar> \<le> 10 powi 126"
proof -
  let ?a = "pn_adjusted_exponent n"
  note b = number_decade [OF assms] and st = decade_start [OF assms]
  have lo: "- 128 \<le> ?a \<longleftrightarrow> 10 powi (- 128) \<le> \<bar>number_value n\<bar>"
  proof
    assume "- 128 \<le> ?a"
    then have "(10::rat) powi (- 128) \<le> 10 powi ?a" by (intro power_int_increasing; simp)
    then show "10 powi (- 128) \<le> \<bar>number_value n\<bar>" using b(1) by (rule order_trans)
  qed (rule decade_unique [OF _ b(2)])
  have hi: "\<bar>number_value n\<bar> < 10 powi 126 \<longleftrightarrow> ?a \<le> 125"
  proof
    assume "?a \<le> 125"
    then have "(10::rat) powi (?a + 1) \<le> 10 powi 126" by (intro power_int_increasing; simp)
    with b(2) show "\<bar>number_value n\<bar> < 10 powi 126" by (rule less_le_trans)
  qed (use decade_unique [OF b(1), of 125] in simp)
  have eq: "\<bar>number_value n\<bar> = 10 powi 126 \<longleftrightarrow> ?a = 126 \<and> pn_digits n = ''1''"
  proof
    assume v: "\<bar>number_value n\<bar> = 10 powi 126"
    have "(10::rat) powi 126 < 10 powi (126 + 1)" by (simp add: powi_less_cancel)
    then have "?a = 126" using decade_unique [OF b(1), of 126] decade_unique [OF _ b(2), of 126] v by simp
    then show "?a = 126 \<and> pn_digits n = ''1''" using st v by simp
  qed (use st in auto)
  show ?thesis unfolding lo order_le_less [of "\<bar>number_value n\<bar>"] hi eq by auto
qed

section \<open>Properties\<close>

text \<open>
  C1: Every text the DynamoDB number parser accepts is a decimal literal, and the parsed number
  denotes exactly the rational that the literal denotes; it satisfies the type invariant (at
  most 38 digits, no leading or trailing zero, one representation of zero) and its decimal
  exponent is in the documented range.
\<close>

theorem parse_denotes:
  assumes "parse s = Inr n" and "addressable s"
  shows "(\<exists>l. wf_literal l \<and> literal_text l = s \<and> number_value n = literal_value l)
    \<and> wf_number n \<and> in_dynamodb_range n"
  using parse_wf [OF assms] parse_value_of_text [of s n] assms unfolding parse_iff_decimal by blast

theorem parse_denotes_witness:
  "(\<exists>l. wf_literal l \<and> literal_text l = ''-01.50e3''
      \<and> number_value \<lparr>pn_negative = True, pn_adjusted_exponent = 3, pn_digits = ''15'', pn_is_zero = False\<rparr>
        = literal_value l)
    \<and> wf_number \<lparr>pn_negative = True, pn_adjusted_exponent = 3, pn_digits = ''15'', pn_is_zero = False\<rparr>
    \<and> in_dynamodb_range \<lparr>pn_negative = True, pn_adjusted_exponent = 3, pn_digits = ''15'', pn_is_zero = False\<rparr>"
proof (rule parse_denotes)
  show "parse ''-01.50e3'' =
    Inr \<lparr>pn_negative = True, pn_adjusted_exponent = 3, pn_digits = ''15'', pn_is_zero = False\<rparr>" by code_simp
  show "addressable ''-01.50e3''" by (simp add: addressable_def)
qed

text \<open>
  C16: A decimal literal of a number other than zero is accepted by the parser exactly when it has
  at most 38 significant digits and its magnitude lies in \<open>[1E-130, 1E126)\<close>; neither leading or
  trailing zeros nor the way the exponent is written matter.
\<close>

theorem parse_accepts_iff:
  assumes "wf_literal l" "addressable (literal_text l)" "literal_value l \<noteq> 0"
  shows "(\<exists>n. parse (literal_text l) = Inr n) \<longleftrightarrow>
    length (significant_digits (literal_digits l)) \<le> 38
    \<and> 10 powi (- 130) \<le> \<bar>literal_value l\<bar> \<and> \<bar>literal_value l\<bar> < 10 powi 126"
proof
  assume "\<exists>n. parse (literal_text l) = Inr n"
  then obtain n where n: "parse_decimal_bytes (literal_text l) = Inr n" "in_dynamodb_range n"
    by (auto simp: parse_iff_decimal)
  note v = parse_literal_value [OF assms(1,2) n(1)]
  have "\<not> pn_is_zero n" using number_value_zero_iff [OF v(1)] v(2) assms(3) by simp
  from range_iff [OF v(1) this] n(2) v(2) parse_decimal_precision [OF assms(1,2) n(1)]
  show "length (significant_digits (literal_digits l)) \<le> 38
    \<and> 10 powi (- 130) \<le> \<bar>literal_value l\<bar> \<and> \<bar>literal_value l\<bar> < 10 powi 126" by simp
next
  assume "length (significant_digits (literal_digits l)) \<le> 38
    \<and> 10 powi (- 130) \<le> \<bar>literal_value l\<bar> \<and> \<bar>literal_value l\<bar> < 10 powi 126"
  then show "\<exists>n. parse (literal_text l) = Inr n"
    using parse_decades [OF assms, of "- 130" 125] by (auto simp: parse_iff_decimal in_dynamodb_range_def)
qed

theorem parse_accepts_iff_witness:
  "\<exists>n. parse (literal_text \<lparr>dl_sign = '''', dl_int = ''0'', dl_frac = Some ''250'',
     dl_exp = Some (CHR ''E'', ''+'', ''2'')\<rparr>) = Inr n"
  by (subst parse_accepts_iff)
    (simp_all add: wf_literal_def sign_text_def frac_digits_def is_ascii_digit_def addressable_def
      literal_text_def literal_value_def literal_digits_def literal_exponent_def digs_val_Cons digit_val_def
      significant_digits_def strip_trailing_zeros_def)

text \<open>
  C19: The canonical text of an accepted number parses to the same number, is at most 171 bytes
  long, and is a fixed point of canonicalisation.
\<close>

theorem canonical_round_trip:
  assumes "canonical_dynamodb_number s = Inr c" and "addressable s"
  shows "parse c = parse s \<and> canonical_dynamodb_number c = Inr c \<and> length c \<le> 171"
proof -
  obtain n where n: "parse s = Inr n" "c = canonical_string n"
    using assms(1) by (auto simp: canonical_dynamodb_number_def result_simps)
  from parse_canonical canonical_length parse_wf [OF n(1) assms(2)] n
  show ?thesis by (simp add: canonical_dynamodb_number_def)
qed

theorem canonical_round_trip_witness:
  "parse ''1500'' = parse ''1.5e3'' \<and> canonical_dynamodb_number ''1500'' = Inr ''1500''
    \<and> length ''1500'' \<le> 171"
proof (rule canonical_round_trip)
  show "canonical_dynamodb_number ''1.5e3'' = Inr ''1500''" by code_simp
  show "addressable ''1.5e3''" by (simp add: addressable_def)
qed

lemma project_form:
  assumes "project_dynamodb_number_from_bytes s = Inr t" "parse s = Inr n"
  shows "t = (if length s \<le> WRITE_NUMBER_BYTES then s
      else if \<not> pn_is_zero n \<and> length (literal_text (scientific_literal n)) < length (canonical_string n)
      then literal_text (scientific_literal n) else canonical_string n)"
  using assms by (auto simp: project_dynamodb_number_from_bytes_def parse_def result_simps Let_def
      scientific_literal_text split: if_splits)

definition long_input :: string where
  "long_input = replicate 170 (CHR ''0'') @ ''7e100''"

text \<open>
  C21: The text stored for a number attribute denotes the number the client wrote and takes at most
  \<open>WRITE_NUMBER_BYTES\<close> bytes, whatever the length of the input. An input that fits is stored as it is. Of a
  longer one the shorter of the canonical decimal form and the scientific form (the significant digits and an
  exponent) is stored, and zero is stored as \<open>0\<close>.
\<close>

theorem projection_keeps_number:
  assumes "project_dynamodb_number_from_bytes s = Inr t" and "addressable s"
  shows "\<exists>n. parse s = Inr n \<and> parse t = Inr n \<and> length t \<le> WRITE_NUMBER_BYTES
    \<and> (if length s \<le> WRITE_NUMBER_BYTES then t = s
       else if pn_is_zero n then t = ''0''
       else t \<in> {canonical_string n, literal_text (scientific_literal n)}
         \<and> length t = min (length (canonical_string n)) (length (literal_text (scientific_literal n))))"
proof -
  obtain n where n: "parse s = Inr n"
    using assms(1) by (auto simp: project_dynamodb_number_from_bytes_def parse_def result_simps)
  show ?thesis using project_sound [OF assms] project_form [OF assms(1) n] n
    by (intro exI [of _ n]) (auto simp: canonical_string_def)
qed

theorem projection_keeps_number_witness:
  "project_dynamodb_number_from_bytes long_input = Inr ''7e100''
   \<and> (\<exists>n. parse long_input = Inr n \<and> parse ''7e100'' = Inr n
     \<and> (if pn_is_zero n then ''7e100'' = ''0''
        else ''7e100'' \<in> {canonical_string n, literal_text (scientific_literal n)}
         \<and> length ''7e100'' = min (length (canonical_string n)) (length (literal_text (scientific_literal n)))))"
proof -
  have p: "project_dynamodb_number_from_bytes long_input = Inr ''7e100''" by code_simp
  have l: "length long_input = 175" by (simp add: long_input_def)
  from projection_keeps_number [OF p] obtain n where n: "parse long_input = Inr n" "parse ''7e100'' = Inr n"
    "if length long_input \<le> WRITE_NUMBER_BYTES then ''7e100'' = long_input
       else if pn_is_zero n then ''7e100'' = ''0''
       else ''7e100'' \<in> {canonical_string n, literal_text (scientific_literal n)}
         \<and> length ''7e100'' = min (length (canonical_string n)) (length (literal_text (scientific_literal n)))"
    unfolding addressable_def l by auto
  then show ?thesis using p unfolding l by (intro conjI exI [of _ n]) simp_all
qed

text \<open>
  C22: The message-attribute (SQS) canonicaliser accepts a literal of a nonzero number exactly when
  it has at most 38 significant digits and its magnitude lies in \<open>[1E-128, 1E126]\<close>, the upper
  bound included.
\<close>

theorem sqs_accepts_iff:
  assumes "wf_literal l" "addressable (literal_text l)" "literal_value l \<noteq> 0"
  shows "(\<exists>c. canonical_sqs_number (literal_text l) = Inr c) \<longleftrightarrow>
    length (significant_digits (literal_digits l)) \<le> 38
    \<and> 10 powi (- 128) \<le> \<bar>literal_value l\<bar> \<and> \<bar>literal_value l\<bar> \<le> 10 powi 126"
proof
  assume "\<exists>c. canonical_sqs_number (literal_text l) = Inr c"
  then obtain n where n: "parse_decimal_bytes (literal_text l) = Inr n" "- 128 \<le> pn_adjusted_exponent n"
    "pn_adjusted_exponent n < 126 \<or> pn_adjusted_exponent n = 126 \<and> pn_digits n = ''1''"
    by (fastforce simp: canonical_sqs_number_def result_simps split: if_splits)
  note v = parse_literal_value [OF assms(1,2) n(1)]
  have "\<not> pn_is_zero n" using number_value_zero_iff [OF v(1)] v(2) assms(3) by simp
  with sqs_range_iff [OF v(1)] n v(2) parse_decimal_precision [OF assms(1,2) n(1)]
  show "length (significant_digits (literal_digits l)) \<le> 38
    \<and> 10 powi (- 128) \<le> \<bar>literal_value l\<bar> \<and> \<bar>literal_value l\<bar> \<le> 10 powi 126" by simp
next
  assume r: "length (significant_digits (literal_digits l)) \<le> 38
    \<and> 10 powi (- 128) \<le> \<bar>literal_value l\<bar> \<and> \<bar>literal_value l\<bar> \<le> 10 powi 126"
  have "(10::rat) powi 126 < 10 powi (126 + 1)" by (simp add: powi_less_cancel)
  with r have "\<bar>literal_value l\<bar> < 10 powi (126 + 1)" by (meson le_less_trans)
  with r obtain n where n: "parse_decimal_bytes (literal_text l) = Inr n"
    using parse_decades [OF assms, of "- 128" 126] by auto
  note v = parse_literal_value [OF assms(1,2) n]
  have "\<not> pn_is_zero n" using number_value_zero_iff [OF v(1)] v(2) assms(3) by simp
  from sqs_range_iff [OF v(1) this] r v(2) n
  show "\<exists>c. canonical_sqs_number (literal_text l) = Inr c" by (auto simp: canonical_sqs_number_def)
qed

theorem sqs_accepts_iff_witness:
  "\<exists>c. canonical_sqs_number (literal_text \<lparr>dl_sign = ''-'', dl_int = ''1'', dl_frac = None,
     dl_exp = Some (CHR ''e'', '''', ''3'')\<rparr>) = Inr c"
  by (subst sqs_accepts_iff)
    (simp_all add: wf_literal_def sign_text_def frac_digits_def is_ascii_digit_def addressable_def
      literal_text_def literal_value_def literal_digits_def literal_exponent_def digs_val_Cons digit_val_def
      significant_digits_def strip_trailing_zeros_def)

end
