(* ===== verification/Number_Order.thy ===== *)
theory Number_Order
  imports Number_Text
begin

text \<open>
  The order of numbers and their sortable keys. Digit strings compare as the numbers they denote
  once padded to 38 digits; from that follow that \<open>compare_dynamodb_numbers\<close> is the order of the
  rationals, that the byte and hexadecimal keys satisfy the contract of a sortable key (locale
  \<open>sortable_key\<close>, interpreted on both encoders), and that decoding inverts encoding.
\<close>

section \<open>Lexicographic order of digit strings\<close>

definition padded :: "nat \<Rightarrow> string \<Rightarrow> string" where
  "padded k ds = ds @ zeros (k - length ds)"

lemma padded_simps [simp]:
  "padded k [] = zeros k" "padded (Suc k) (d # ds) = d # padded k ds"
  by (simp_all add: padded_def)

lemma padded_length: "length ds \<le> k \<Longrightarrow> length (padded k ds) = k"
  by (simp add: padded_def)

lemma padded_digits: "all_digits ds \<Longrightarrow> all_digits (padded k ds)"
  by (simp add: padded_def)

lemma padded_val: "digs_val (padded k ds) = digs_val ds * 10 ^ (k - length ds)"
  by (simp add: padded_def digs_val_append digs_val_zeros)

lemma less_same_length:
  assumes "length xs = length ys" "all_digits xs" "all_digits ys"
  shows "xs < ys \<longleftrightarrow> digs_val xs < digs_val ys"
  using assms
proof (induction xs ys rule: list_induct2)
  case (Cons x xs y ys)
  have b: "digs_val xs < 10 ^ length ys" "digs_val ys < 10 ^ length ys"
    using Cons.prems Cons.hyps digs_val_bound [of xs] digs_val_bound [of ys] by auto
  consider "x < y" | "x = y" | "y < x" by (rule linorder_cases)
  then show ?case
  proof cases
    case 1
    then have "digit_val x + 1 \<le> digit_val y" using Cons.prems digit_val_less [of x y] by simp
    from mult_right_mono [OF this, of "10 ^ length ys"] b 1 Cons.hyps
    show ?thesis by (simp add: digs_val_Cons)
  next
    case 2 then show ?thesis using Cons by (simp add: digs_val_Cons)
  next
    case 3
    then have "digit_val y + 1 \<le> digit_val x" using Cons.prems digit_val_less [of y x] by simp
    from mult_right_mono [OF this, of "10 ^ length ys"] b 3 Cons.hyps
    show ?thesis by (auto simp: digs_val_Cons)
  qed
qed simp

definition sig_digits :: "string \<Rightarrow> bool" where
  "sig_digits ds \<longleftrightarrow> all_digits ds \<and> (ds \<noteq> [] \<longrightarrow> last ds \<noteq> CHR ''0'')"

lemma sig_digits_Cons: "sig_digits (d # ds) \<Longrightarrow> is_ascii_digit d \<and> sig_digits ds"
  by (auto simp: sig_digits_def split: if_splits)

lemma sig_digits_pos: "sig_digits ds \<Longrightarrow> ds \<noteq> [] \<Longrightarrow> 0 < digs_val ds"
  by (cases ds rule: rev_cases) (auto simp: sig_digits_def digs_val_append digs_val_Cons digit_val_pos)

lemma padded_zeros_less:
  assumes "sig_digits ds" "ds \<noteq> []" "length ds \<le> k" shows "zeros k < padded k ds"
  using assms sig_digits_pos [OF assms(1,2)]
  by (subst less_same_length)
    (auto simp: padded_length padded_val padded_digits sig_digits_def digs_val_zeros)

lemma padded_less:
  "sig_digits xs \<Longrightarrow> sig_digits ys \<Longrightarrow> length xs \<le> k \<Longrightarrow> length ys \<le> k \<Longrightarrow>
   padded k xs < padded k ys \<longleftrightarrow> xs < ys"
proof (induction xs arbitrary: ys k)
  case Nil
  then show ?case by (cases ys) (use padded_zeros_less [of ys k] in auto)
next
  case (Cons x xs)
  from Cons.prems obtain k' where k: "k = Suc k'" by (cases k) auto
  show ?case
  proof (cases ys)
    case Nil
    then show ?thesis using padded_zeros_less [of "x # xs" k] Cons.prems by auto
  next
    case (Cons y ys')
    then show ?thesis using Cons.IH [of ys' k'] Cons.prems k sig_digits_Cons by auto
  qed
qed

lemma digit_order:
  assumes "sig_digits xs" "sig_digits ys" "length xs \<le> k" "length ys \<le> k"
  shows "xs < ys \<longleftrightarrow> digs_val (padded k xs) < digs_val (padded k ys)"
  using assms padded_less [OF assms]
  by (subst less_same_length [symmetric]) (auto simp: padded_length padded_digits sig_digits_def)

section \<open>Comparison of numbers\<close>

definition magnitude_less :: "parsed_number \<Rightarrow> parsed_number \<Rightarrow> bool" where
  "magnitude_less a b \<longleftrightarrow> pn_adjusted_exponent a < pn_adjusted_exponent b
     \<or> pn_adjusted_exponent a = pn_adjusted_exponent b \<and> pn_digits a < pn_digits b"

lemma number_abs_padded:
  assumes "wf_number n" "\<not> pn_is_zero n"
  shows "\<bar>number_value n\<bar> = of_nat (digs_val (padded 38 (pn_digits n))) * 10 powi (pn_adjusted_exponent n - 37)"
proof -
  let ?t = "38 - length (pn_digits n)"
  have "pn_adjusted_exponent n - int (length (pn_digits n)) + 1 = pn_adjusted_exponent n - 37 + int ?t"
    using assms by (auto simp: wf_number_def)
  then have "(10::rat) powi (pn_adjusted_exponent n - int (length (pn_digits n)) + 1)
    = 10 powi (pn_adjusted_exponent n - 37) * 10 ^ ?t" by (simp only: powi_add)
  then show ?thesis using assms by (simp add: number_value_def abs_mult padded_val)
qed

lemma number_sig: "wf_number n \<Longrightarrow> sig_digits (pn_digits n) \<and> length (pn_digits n) \<le> 38"
  by (auto simp: wf_number_def sig_digits_def split: if_splits)

lemma magnitude_less_iff:
  assumes "wf_number a" "wf_number b" "\<not> pn_is_zero a" "\<not> pn_is_zero b"
  shows "magnitude_less a b \<longleftrightarrow> \<bar>number_value a\<bar> < \<bar>number_value b\<bar>"
proof -
  note da = number_decade [OF assms(1,3)] and db = number_decade [OF assms(2,4)]
  consider (lt) "pn_adjusted_exponent a < pn_adjusted_exponent b"
    | (eq) "pn_adjusted_exponent a = pn_adjusted_exponent b"
    | (gt) "pn_adjusted_exponent b < pn_adjusted_exponent a" by linarith
  then show ?thesis
  proof cases
    case lt
    then have "(10::rat) powi (pn_adjusted_exponent a + 1) \<le> 10 powi pn_adjusted_exponent b"
      by (intro power_int_increasing; simp)
    with da db have "\<bar>number_value a\<bar> < \<bar>number_value b\<bar>" by linarith
    with lt show ?thesis by (simp add: magnitude_less_def)
  next
    case eq
    then show ?thesis using number_sig assms
      by (simp add: magnitude_less_def number_abs_padded digit_order [of _ _ 38])
  next
    case gt
    then have "(10::rat) powi (pn_adjusted_exponent b + 1) \<le> 10 powi pn_adjusted_exponent a"
      by (intro power_int_increasing; simp)
    with da db have "\<bar>number_value b\<bar> < \<bar>number_value a\<bar>" by linarith
    with gt show ?thesis by (simp add: magnitude_less_def)
  qed
qed

lemma number_sign:
  assumes "wf_number n"
  shows "pn_negative n \<Longrightarrow> number_value n < 0" "\<not> pn_negative n \<Longrightarrow> 0 \<le> number_value n"
    "\<not> pn_negative n \<Longrightarrow> \<not> pn_is_zero n \<Longrightarrow> 0 < number_value n"
    "pn_is_zero n \<Longrightarrow> number_value n = 0 \<and> \<not> pn_negative n"
proof -
  have p: "0 < (10::rat) powi k" for k by simp
  have d: "\<not> pn_is_zero n \<Longrightarrow> 0 < (of_nat (digs_val (pn_digits n)) :: rat)"
    using assms sig_digits_pos number_sig by (auto simp: wf_number_def)
  show "pn_is_zero n \<Longrightarrow> number_value n = 0 \<and> \<not> pn_negative n"
    using assms by (simp add: wf_number_def number_value_def)
  show "pn_negative n \<Longrightarrow> number_value n < 0" "\<not> pn_negative n \<Longrightarrow> 0 \<le> number_value n"
    "\<not> pn_negative n \<Longrightarrow> \<not> pn_is_zero n \<Longrightarrow> 0 < number_value n"
    using assms d p by (auto simp: number_value_def wf_number_def)
qed

lemma number_value_abs:
  "wf_number n \<Longrightarrow> number_value n = (if pn_negative n then - \<bar>number_value n\<bar> else \<bar>number_value n\<bar>)"
  using number_sign [of n] by auto

lemma magnitude_cmp:
  assumes "wf_number a" "wf_number b" "\<not> pn_is_zero a" "\<not> pn_is_zero b"
  shows "then_with (cmp (pn_adjusted_exponent a) (pn_adjusted_exponent b)) (cmp (pn_digits a) (pn_digits b))
    = cmp \<bar>number_value a\<bar> \<bar>number_value b\<bar>"
proof -
  have "then_with (cmp (pn_adjusted_exponent a) (pn_adjusted_exponent b)) (cmp (pn_digits a) (pn_digits b))
    = (if magnitude_less a b then OLess else if magnitude_less b a then OGreater else OEqual)"
    by (auto simp: magnitude_less_def cmp_def then_with_def)
  also have "\<dots> = cmp \<bar>number_value a\<bar> \<bar>number_value b\<bar>"
    using magnitude_less_iff [OF assms] magnitude_less_iff [OF assms(2,1,4,3)]
    by (auto simp: cmp_def)
  finally show ?thesis .
qed

lemma compare_parsed_value:
  assumes "wf_number a" "wf_number b"
  shows "compare_parsed a b = cmp (number_value a) (number_value b)"
proof -
  note sa = number_sign [OF assms(1)] and sb = number_sign [OF assms(2)]
  consider (sign) "pn_negative a \<noteq> pn_negative b"
    | (zero) "pn_negative a = pn_negative b" "pn_is_zero a \<or> pn_is_zero b"
    | (mag) "pn_negative a = pn_negative b" "\<not> pn_is_zero a" "\<not> pn_is_zero b" by blast
  then show ?thesis
  proof cases
    case sign
    then show ?thesis using sa sb by (cases "pn_negative a") (force simp: compare_parsed_def cmp_def)+
  next
    case zero
    then show ?thesis using sa sb by (auto simp: compare_parsed_def cmp_def)
  next
    case mag
    then have "compare_parsed a b = (if pn_negative a then ord_reverse (cmp \<bar>number_value a\<bar> \<bar>number_value b\<bar>)
      else cmp \<bar>number_value a\<bar> \<bar>number_value b\<bar>)"
      using magnitude_cmp [OF assms mag(2,3)] by (simp add: compare_parsed_def Let_def)
    then show ?thesis
      using number_value_abs [OF assms(1)] number_value_abs [OF assms(2)] mag(1)
      by (auto simp: cmp_def split: if_splits)
  qed
qed

lemma number_value_inject:
  assumes "wf_number a" "wf_number b" "number_value a = number_value b" shows "a = b"
proof (cases "pn_is_zero a")
  case True
  then have "pn_is_zero b" using number_value_zero_iff assms by metis
  with True assms show ?thesis by (simp add: wf_number_def)
next
  case False
  then have z: "\<not> pn_is_zero b" using number_value_zero_iff assms by metis
  have "pn_negative a = pn_negative b"
    using number_sign [OF assms(1)] number_sign [OF assms(2)] assms(3) by (metis not_less)
  moreover have "\<not> magnitude_less a b" "\<not> magnitude_less b a"
    using magnitude_less_iff [OF assms(1,2) False z] magnitude_less_iff [OF assms(2,1) z False] assms(3)
    by simp_all
  ultimately show ?thesis using False z by (auto simp: magnitude_less_def)
qed

section \<open>Sortable keys\<close>

lemma unat_byte_of: "unat (byte_of c) = of_char c"
  using of_char_mod_256 [of c] mod_less_divisor [of 256 "of_char c"] by (simp add: byte_of_def unat_of_nat)

lemma byte_of_less: "byte_of c < byte_of d \<longleftrightarrow> c < d"
  by (simp add: word_less_nat_alt unat_byte_of less_char_def)

lemma map_less:
  fixes f :: "'a :: linorder \<Rightarrow> 'b :: linorder"
  assumes "\<And>a b. f a < f b \<longleftrightarrow> a < b"
  shows "map f xs < map f ys \<longleftrightarrow> xs < ys"
proof (induction xs arbitrary: ys)
  case Nil show ?case by (cases ys) auto
next
  case (Cons x xs)
  have "f x = f y \<longleftrightarrow> x = y" for y using assms [of x y] assms [of y x] by (metis linorder_neqE order_less_irrefl)
  then show ?case by (cases ys) (auto simp: Cons assms)
qed

lemma map_less_anti:
  fixes f :: "'a :: linorder \<Rightarrow> 'b :: linorder"
  assumes "\<And>a b. f a < f b \<longleftrightarrow> b < a" "length xs = length ys"
  shows "map f xs < map f ys \<longleftrightarrow> ys < xs"
  using assms(2)
proof (induction xs ys rule: list_induct2)
  case (Cons x xs y ys)
  have "f x = f y \<longleftrightarrow> x = y" using assms(1) [of x y] assms(1) [of y x] by (metis linorder_neqE order_less_irrefl)
  then show ?case by (auto simp: Cons assms(1))
qed simp

lemma not_less_not: "not a < not b \<longleftrightarrow> b < (a :: 8 word)"
proof -
  have u: "unat (not w) = 255 - unat w" "unat w < 256" for w :: "8 word"
  proof -
    have "not w = (255 :: 8 word) - w" by (simp add: not_eq_complement)
    moreover have "w \<le> 255" using unsigned_less [of w, where ?'a = nat] by (simp add: word_le_nat_alt)
    ultimately show "unat (not w) = 255 - unat w" by (simp add: unat_sub)
    show "unat w < 256" using unsigned_less [of w, where ?'a = nat] by simp
  qed
  show ?thesis using u(2) [of a] u(2) [of b] by (simp add: word_less_nat_alt u(1)) linarith
qed

definition magnitude_bytes :: "parsed_number \<Rightarrow> u8 list" where
  "magnitude_bytes n =
     (let (hi, lo) = to_be_bytes (nat (pn_adjusted_exponent n + 1000))
      in hi # lo # map byte_of (padded 38 (pn_digits n)))"

definition key_bytes :: "parsed_number \<Rightarrow> u8 list" where
  "key_bytes n =
     (if pn_is_zero n then 1 # replicate 40 0
      else (if pn_negative n then 0 else 2) # map (complement_if (pn_negative n)) (magnitude_bytes n))"

lemma complement_if_simps [simp]: "complement_if True = not" "complement_if False = (\<lambda>b. b)"
  by (auto simp: complement_if_def)

lemma padded_nth:
  assumes "length ds \<le> k"
  shows "map (\<lambda>i. f (if i < length ds then byte_of (ds ! i) else byte_of (CHR ''0''))) [0..<k]
    = map f (map byte_of (padded k ds))"
  using assms by (intro nth_equalityI) (auto simp: padded_def nth_append)

lemma encode_key_bytes:
  assumes "wf_number n" "in_dynamodb_range n" shows "encode_number_bytes n = Inr (key_bytes n)"
proof (cases "pn_is_zero n")
  case False
  have "in_i32 (pn_adjusted_exponent n + 1000)" "0 \<le> pn_adjusted_exponent n + 1000"
    "pn_adjusted_exponent n + 1000 \<le> 65535"
    using assms(2) by (auto simp: in_dynamodb_range_def in_i32_def)
  then show ?thesis using False number_sig [OF assms(1)]
    by (simp add: encode_number_bytes_def key_bytes_def magnitude_bytes_def checked_defs
        padded_nth [of _ 38, simplified] Let_def split: prod.splits del: upt_rec_numeral)
qed (simp add: encode_number_bytes_def key_bytes_def)

lemma digits_less:
  fixes n m :: nat
  shows "n < m \<longleftrightarrow> n div 256 < m div 256 \<or> n div 256 = m div 256 \<and> n mod 256 < m mod 256"
proof -
  have "n = n div 256 * 256 + n mod 256" "m = m div 256 * 256 + m mod 256" by simp_all
  moreover have "n mod 256 < 256" "m mod 256 < 256" by simp_all
  ultimately show ?thesis by linarith
qed

lemma word8_less:
  assumes "x < 256" "y < 256"
  shows "(word_of_nat x :: 8 word) < word_of_nat y \<longleftrightarrow> x < y"
    "(word_of_nat x :: 8 word) = word_of_nat y \<longleftrightarrow> x = y"
  using assms by (simp_all add: word_less_nat_alt word_unat_eq_iff unat_of_nat)

lemma to_be_bytes_less:
  assumes "n < 65536" "m < 65536"
  shows "fst (to_be_bytes n) # snd (to_be_bytes n) # xs < fst (to_be_bytes m) # snd (to_be_bytes m) # ys
    \<longleftrightarrow> n < m \<or> n = m \<and> xs < ys"
proof -
  have d: "n div 256 < 256" "m div 256 < 256" using assms by auto
  have e: "n = m \<longleftrightarrow> n div 256 = m div 256 \<and> n mod 256 = m mod 256" by (metis div_mult_mod_eq)
  show ?thesis unfolding to_be_bytes_def digits_less [of n m] using e d
    by (simp add: word8_less) blast
qed

lemma magnitude_bytes_less:
  assumes "wf_number a" "wf_number b" "in_dynamodb_range a" "in_dynamodb_range b"
  shows "magnitude_bytes a < magnitude_bytes b \<longleftrightarrow> magnitude_less a b"
proof -
  let ?n = "nat (pn_adjusted_exponent a + 1000)" and ?m = "nat (pn_adjusted_exponent b + 1000)"
  have r: "?n < 65536" "?m < 65536" using assms(3,4) by (auto simp: in_dynamodb_range_def)
  have lt: "pn_adjusted_exponent a < pn_adjusted_exponent b \<longleftrightarrow> ?n < ?m"
    and eq: "pn_adjusted_exponent a = pn_adjusted_exponent b \<longleftrightarrow> ?n = ?m"
    using assms(3,4) by (auto simp: in_dynamodb_range_def)

  have p: "map byte_of (padded 38 (pn_digits a)) < map byte_of (padded 38 (pn_digits b))
    \<longleftrightarrow> pn_digits a < pn_digits b"
    using number_sig [OF assms(1)] number_sig [OF assms(2)]
    by (simp add: map_less [OF byte_of_less] padded_less)
  show ?thesis
    unfolding magnitude_less_def lt eq magnitude_bytes_def split_beta Let_def to_be_bytes_less [OF r] p ..
qed

lemma key_bytes_length: "wf_number n \<Longrightarrow> length (key_bytes n) = 41"
  using number_sig [of n] by (simp add: key_bytes_def magnitude_bytes_def to_be_bytes_def padded_length)

lemma magnitude_bytes_length: "wf_number n \<Longrightarrow> length (magnitude_bytes n) = 40"
  using number_sig [of n] by (simp add: magnitude_bytes_def to_be_bytes_def padded_length)

lemma key_bytes_less:
  assumes "wf_number a" "wf_number b" "in_dynamodb_range a" "in_dynamodb_range b"
    and lt: "number_value a < number_value b"
  shows "key_bytes a < key_bytes b"
proof -
  note sa = number_sign [OF assms(1)] and sb = number_sign [OF assms(2)]
  have tag: "(0::u8) < 1" "(0::u8) < 2" "(1::u8) < 2" by simp_all
  consider (mag) "\<not> pn_is_zero a" "\<not> pn_is_zero b" "pn_negative a = pn_negative b"
    | (sign) "\<not> pn_is_zero a" "\<not> pn_is_zero b" "pn_negative a" "\<not> pn_negative b"
    | (za) "pn_is_zero a" "\<not> pn_is_zero b" "\<not> pn_negative b"
    | (zb) "pn_is_zero b" "\<not> pn_is_zero a" "pn_negative a"
    using lt sa sb
    by (cases "pn_is_zero a"; cases "pn_is_zero b"; cases "pn_negative a"; cases "pn_negative b") force+
  then show ?thesis
  proof cases
    case mag
    show ?thesis
    proof (cases "pn_negative a")
      case True
      then have "magnitude_less b a" using magnitude_less_iff [OF assms(2,1) mag(2,1)] lt mag
        number_value_abs [OF assms(1)] number_value_abs [OF assms(2)] by simp
      then show ?thesis using mag True magnitude_bytes_less [OF assms(2,1,4,3)]
        by (simp add: key_bytes_def map_less_anti [OF not_less_not] magnitude_bytes_length assms)
    next
      case False
      then have "magnitude_less a b" using magnitude_less_iff [OF assms(1,2) mag(1,2)] lt mag
        number_value_abs [OF assms(1)] number_value_abs [OF assms(2)] by simp
      then show ?thesis using mag False magnitude_bytes_less [OF assms(1-4)]
        by (simp add: key_bytes_def)
    qed
  qed (use tag in \<open>auto simp: key_bytes_def\<close>)
qed

section \<open>Hexadecimal text\<close>

lemma unat_byte_less: "unat (b :: u8) < 256"
  using unsigned_less [of b, where ?'a = nat] by simp

lemma nibbles: "unat (drop_bit 4 (b :: u8)) = unat b div 16" "unat (and b 15) = unat b mod 16"
proof -
  show "unat (drop_bit 4 b) = unat b div 16" by (simp add: drop_bit_eq_div unat_div_distrib)
  have "and b 15 = take_bit 4 b" by (simp add: take_bit_eq_mask mask_eq_exp_minus_1)
  then show "unat (and b 15) = unat b mod 16" by (simp add: take_bit_eq_mod unat_mod_distrib)
qed

lemma hex_digit_less:
  assumes "unat a < 16" "unat b < 16"
  shows "hex_digit a < hex_digit b \<longleftrightarrow> unat a < unat b" "hex_digit a = hex_digit b \<longleftrightarrow> unat a = unat b"
proof -
  have "\<forall>i\<in>set [0..<16]. \<forall>j\<in>set [0..<16]. (''0123456789abcdef'' ! i < ''0123456789abcdef'' ! j) = (i < j)
    \<and> (''0123456789abcdef'' ! i = ''0123456789abcdef'' ! j) = (i = j)" by code_simp
  then show "hex_digit a < hex_digit b \<longleftrightarrow> unat a < unat b" "hex_digit a = hex_digit b \<longleftrightarrow> unat a = unat b"
    using assms unfolding hex_digit_def set_upt by (metis atLeastLessThan_iff le0)+
qed

lemma hex_byte_less:
  "hex_byte a @ xs < hex_byte b @ ys \<longleftrightarrow> a < b \<or> a = b \<and> xs < ys"
proof -
  have n: "unat a div 16 < 16" "unat b div 16 < 16" using unat_byte_less [of a] unat_byte_less [of b] by auto
  have "unat a = unat a div 16 * 16 + unat a mod 16" "unat b = unat b div 16 * 16 + unat b mod 16" by simp_all
  moreover have "unat a mod 16 < 16" "unat b mod 16 < 16" by simp_all
  ultimately have lt: "unat a < unat b \<longleftrightarrow> unat a div 16 < unat b div 16
      \<or> unat a div 16 = unat b div 16 \<and> unat a mod 16 < unat b mod 16" by linarith
  have eq: "unat a = unat b \<longleftrightarrow> unat a div 16 = unat b div 16 \<and> unat a mod 16 = unat b mod 16"
    by (metis div_mult_mod_eq)
  show ?thesis unfolding word_less_nat_alt word_unat_eq_iff lt eq
    using n by (simp add: hex_byte_def hex_digit_less nibbles) blast
qed

lemma hex_text_less: "concat (map hex_byte xs) < concat (map hex_byte ys) \<longleftrightarrow> xs < ys"
proof (induction xs arbitrary: ys)
  case Nil show ?case by (cases ys) (auto simp: hex_byte_def)
next
  case (Cons x xs)
  have "\<not> hex_byte x @ zs < []" for zs by simp
  then show ?case by (cases ys) (simp_all add: hex_byte_less Cons)
qed

lemma hex_text_length: "length (concat (map hex_byte xs)) = 2 * length xs"
  by (induction xs) (simp_all add: hex_byte_def)

lemma decode_hex_digit_hex:
  assumes "unat n < 16" shows "decode_hex_digit (hex_digit n) = Inr n"
proof -
  have "\<forall>i\<in>set [0..<16]. decode_hex_digit (''0123456789abcdef'' ! i) = Inr (word_of_nat i)" by code_simp
  then have "decode_hex_digit (''0123456789abcdef'' ! unat n) = Inr (word_of_nat (unat n))"
    using assms unfolding set_upt by (metis atLeastLessThan_iff le0)
  then show ?thesis by (simp add: hex_digit_def)
qed

lemma nibbles_join: "or (push_bit 4 (drop_bit 4 b)) (and b 15) = (b :: u8)"
proof -
  have "and b 15 = take_bit 4 b" by (simp add: take_bit_eq_mask mask_eq_exp_minus_1)
  then show ?thesis using bits_ident [of 4 b] by (simp add: disjunctive_add bit_simps)
qed

lemma decode_hex_text: "decode_hex_pairs (concat (map hex_byte xs)) = Inr xs"
proof (induction xs)
  case (Cons b xs)
  have "unat (drop_bit 4 b) < 16" "unat (and b 15) < 16" using unat_byte_less [of b] by (simp_all add: nibbles)
  with Cons show ?case by (simp add: hex_byte_def decode_hex_digit_hex nibbles_join)
qed simp

section \<open>Decoding\<close>

lemma from_to_be_bytes:
  "n < 65536 \<Longrightarrow> from_be_bytes (fst (to_be_bytes n)) (snd (to_be_bytes n)) = n"
  by (simp add: from_be_bytes_def to_be_bytes_def unat_of_nat)

lemma char_from_byte_of [simp]: "char_from (byte_of c) = c"
  by (simp add: char_from_def unat_byte_of)

lemma strip_padded: "sig_digits ds \<Longrightarrow> strip_trailing_zeros (padded k ds) = ds"
  by (cases ds rule: rev_cases)
    (auto simp: sig_digits_def padded_def strip_trailing_zeros_def dropWhile_append)

lemma decode_key_bytes:
  assumes "wf_number n" "in_dynamodb_range n" shows "decode_number_bytes (key_bytes n) = Inr n"
proof (cases "pn_is_zero n")
  case True
  with assms(1) show ?thesis
    by (simp add: key_bytes_def decode_number_bytes_def wf_number_def list_ex_iff)
next
  case False
  let ?neg = "pn_negative n" and ?e = "nat (pn_adjusted_exponent n + 1000)"
  have len: "length (key_bytes n) = 41" by (rule key_bytes_length [OF assms(1)])
  have hd: "hd (key_bytes n) = (if ?neg then 0 else 2)" and tl: "tl (key_bytes n) = map (complement_if ?neg) (magnitude_bytes n)"
    using False by (simp_all add: key_bytes_def)
  have pl: "map (complement_if ?neg) (tl (key_bytes n)) = magnitude_bytes n"
    unfolding tl by (cases ?neg) (simp_all add: o_def)
  have e: "int (from_be_bytes (magnitude_bytes n ! 0) (magnitude_bytes n ! 1)) - 1000 = pn_adjusted_exponent n"
  proof -
    have "?e < 65536" "int ?e - 1000 = pn_adjusted_exponent n"
      using assms(2) by (auto simp: in_dynamodb_range_def)
    then show ?thesis using from_to_be_bytes [of ?e] by (simp add: magnitude_bytes_def split_beta)
  qed
  have d: "map char_from (drop 2 (magnitude_bytes n)) = padded 38 (pn_digits n)"
    by (simp add: magnitude_bytes_def split_beta o_def)
  have st: "strip_trailing_zeros (padded 38 (pn_digits n)) = pn_digits n" "all_digits (padded 38 (pn_digits n))"
    using number_sig [OF assms(1)] strip_padded padded_digits by (auto simp: sig_digits_def)
  have ds: "pn_digits n \<noteq> []" "length (pn_digits n) \<le> 38" using assms(1) False by (auto simp: wf_number_def)
  have neg: "(hd (key_bytes n) = 0) = ?neg" "hd (key_bytes n) \<noteq> 1" using hd by auto
  show ?thesis
    unfolding decode_number_bytes_def neg(1) pl e d Let_def st
    using ds len hd neg st assms(2) False by (auto simp: in_dynamodb_range_def)
qed

section \<open>The contract of a sortable key\<close>

text \<open>
  A key encoder maps the values it accepts to keys of one width whose lexicographic order is the
  order of the values. Clients store items under a key built from several encoded parts, so the
  law they use is about concatenations.
\<close>

locale sortable_key =
  fixes enc :: "'a \<Rightarrow> 'e + 'b::linorder list"
    and val :: "'a \<Rightarrow> 'c::linorder"
    and ok :: "'a \<Rightarrow> bool"
    and width :: nat
  assumes enc_total: "ok a \<Longrightarrow> \<exists>k. enc a = Inr k \<and> length k = width"
    and enc_less: "ok a \<Longrightarrow> ok b \<Longrightarrow> enc a = Inr k \<Longrightarrow> enc b = Inr l \<Longrightarrow> val a < val b \<Longrightarrow> k < l"
    and enc_eq: "ok a \<Longrightarrow> ok b \<Longrightarrow> val a = val b \<Longrightarrow> enc a = enc b"
begin

lemma key_less_iff:
  assumes "ok a" "ok b" "enc a = Inr k" "enc b = Inr l" shows "k < l \<longleftrightarrow> val a < val b"
  using enc_less [OF assms] enc_less [OF assms(2,1,4,3)] enc_eq [OF assms(1,2)] assms(3,4)
  by (cases "val a" "val b" rule: linorder_cases) auto

lemma key_eq_iff:
  assumes "ok a" "ok b" "enc a = Inr k" "enc b = Inr l" shows "k = l \<longleftrightarrow> val a = val b"
  using enc_less [OF assms] enc_less [OF assms(2,1,4,3)] enc_eq [OF assms(1,2)] assms(3,4)
  by (cases "val a" "val b" rule: linorder_cases) auto

lemma key_length: "ok a \<Longrightarrow> enc a = Inr k \<Longrightarrow> length k = width"
  using enc_total by fastforce

lemma composite_less_iff:
  assumes "ok a" "ok b" "enc a = Inr k" "enc b = Inr l"
  shows "k @ s < l @ t \<longleftrightarrow> val a < val b \<or> val a = val b \<and> s < t"
proof -
  have "length k = length l" using key_length assms by simp
  then have "k @ s < l @ t \<longleftrightarrow> k < l \<or> k = l \<and> s < t"
    by (induction k l rule: list_induct2) auto
  then show ?thesis using key_less_iff [OF assms] key_eq_iff [OF assms] by simp
qed

end

text \<open>The number a text denotes, and the texts the encoders accept.\<close>

definition text_value :: "string \<Rightarrow> rat" where
  "text_value s = (case parse s of Inr n \<Rightarrow> number_value n | Inl _ \<Rightarrow> 0)"

definition number_text :: "string \<Rightarrow> bool" where
  "number_text s \<longleftrightarrow> addressable s \<and> validate_dynamodb_number s = Inr ()"

lemma number_text_parse:
  assumes "number_text s"
  obtains n where "parse s = Inr n" "wf_number n" "in_dynamodb_range n" "text_value s = number_value n"
proof -
  obtain n where n: "parse s = Inr n"
    using assms by (auto simp: number_text_def validate_dynamodb_number_def result_simps)
  then show ?thesis using that parse_wf [OF n] assms by (simp add: number_text_def text_value_def)
qed

lemma number_text_key:
  assumes "number_text s"
  obtains n where "parse s = Inr n" "wf_number n" "in_dynamodb_range n" "text_value s = number_value n"
    "append_dynamodb_number_key_bytes s out = Inr (out @ key_bytes n)"
    "encode_dynamodb_number_key s = Inr (CHR ''~'' # concat (map hex_byte (key_bytes n)))"
proof -
  obtain n where n: "parse s = Inr n" "wf_number n" "in_dynamodb_range n" "text_value s = number_value n"
    using number_text_parse [OF assms] .
  show ?thesis
    by (rule that [OF n])
      (simp_all add: n encode_key_bytes append_dynamodb_number_key_bytes_def encode_dynamodb_number_key_def)
qed

lemma number_text_keys:
  assumes "number_text a" "number_text b" "text_value a = text_value b"
  shows "append_dynamodb_number_key_bytes a out = append_dynamodb_number_key_bytes b out"
    "encode_dynamodb_number_key a = encode_dynamodb_number_key b"
proof -
  obtain n where n: "parse a = Inr n" "wf_number n" "text_value a = number_value n"
    using number_text_parse [OF assms(1)] by metis
  obtain m where m: "parse b = Inr m" "wf_number m" "text_value b = number_value m"
    using number_text_parse [OF assms(2)] by metis
  have "n = m" using number_value_inject n m assms(3) by metis
  then show "append_dynamodb_number_key_bytes a out = append_dynamodb_number_key_bytes b out"
    "encode_dynamodb_number_key a = encode_dynamodb_number_key b"
    using n m by (simp_all add: append_dynamodb_number_key_bytes_def encode_dynamodb_number_key_def)
qed

interpretation byte_key: sortable_key "\<lambda>s. append_dynamodb_number_key_bytes s []" text_value number_text 41
proof unfold_locales
  fix a b k l
  assume a: "number_text a"
  obtain n where n: "wf_number n" "in_dynamodb_range n" "text_value a = number_value n"
    "append_dynamodb_number_key_bytes a [] = Inr ([] @ key_bytes n)" using number_text_key [OF a] .
  then show "\<exists>k. append_dynamodb_number_key_bytes a [] = Inr k \<and> length k = 41"
    by (simp add: key_bytes_length)
  assume b: "number_text b"
  obtain m where m: "wf_number m" "in_dynamodb_range m" "text_value b = number_value m"
    "append_dynamodb_number_key_bytes b [] = Inr ([] @ key_bytes m)" using number_text_key [OF b] .
  show "append_dynamodb_number_key_bytes a [] = Inr k \<Longrightarrow> append_dynamodb_number_key_bytes b [] = Inr l
    \<Longrightarrow> text_value a < text_value b \<Longrightarrow> k < l"
    using n m by (auto simp: key_bytes_less)
  show "text_value a = text_value b \<Longrightarrow>
    append_dynamodb_number_key_bytes a [] = append_dynamodb_number_key_bytes b []"
    by (rule number_text_keys [OF a b])
qed

interpretation hex_key: sortable_key encode_dynamodb_number_key text_value number_text 83
proof unfold_locales
  fix a b k l
  assume a: "number_text a"
  obtain n where n: "wf_number n" "in_dynamodb_range n" "text_value a = number_value n"
    "encode_dynamodb_number_key a = Inr (CHR ''~'' # concat (map hex_byte (key_bytes n)))"
    using number_text_key [OF a] .
  then show "\<exists>k. encode_dynamodb_number_key a = Inr k \<and> length k = 83"
    by (simp add: key_bytes_length hex_text_length)
  assume b: "number_text b"
  obtain m where m: "wf_number m" "in_dynamodb_range m" "text_value b = number_value m"
    "encode_dynamodb_number_key b = Inr (CHR ''~'' # concat (map hex_byte (key_bytes m)))"
    using number_text_key [OF b] .
  show "encode_dynamodb_number_key a = Inr k \<Longrightarrow> encode_dynamodb_number_key b = Inr l
    \<Longrightarrow> text_value a < text_value b \<Longrightarrow> k < l"
    using n m by (auto simp: key_bytes_less hex_text_less)
  show "text_value a = text_value b \<Longrightarrow> encode_dynamodb_number_key a = encode_dynamodb_number_key b"
    by (rule number_text_keys [OF a b])
qed

section \<open>Properties\<close>

lemma compare_value:
  assumes "number_text a" "number_text b"
  shows "compare_dynamodb_numbers a b = Inr (cmp (text_value a) (text_value b))"
proof -
  obtain n where n: "parse a = Inr n" "wf_number n" "text_value a = number_value n"
    using number_text_parse [OF assms(1)] .
  obtain m where m: "parse b = Inr m" "wf_number m" "text_value b = number_value m"
    using number_text_parse [OF assms(2)] .
  show ?thesis using n m by (simp add: compare_dynamodb_numbers_def compare_parsed_value)
qed

lemma validate_iff: "validate_dynamodb_number s = Inr () \<longleftrightarrow> (\<exists>n. parse s = Inr n)"
  by (auto simp: validate_dynamodb_number_def result_simps)

text \<open>
  C17: Comparing two number texts gives the order of the rationals they denote.
\<close>

theorem compare_is_numeric_order:
  assumes "number_text a" "number_text b"
  shows "compare_dynamodb_numbers a b = Inr (cmp (text_value a) (text_value b))"
  by (rule compare_value [OF assms])

theorem compare_is_numeric_order_witness:
  "compare_dynamodb_numbers ''-1e2'' ''0.5'' = Inr (cmp (text_value ''-1e2'') (text_value ''0.5''))"
proof (rule compare_is_numeric_order)
  have "validate_dynamodb_number ''-1e2'' = Inr ()" "validate_dynamodb_number ''0.5'' = Inr ()" by code_simp+
  then show "number_text ''-1e2''" "number_text ''0.5''" by (simp_all add: number_text_def addressable_def)
qed

text \<open>
  C2: Raw key bytes of numbers are ordered as the numbers are, also as the leading part of a
  composite key: the rest of the key decides only between equal numbers.
\<close>

theorem byte_key_order:
  assumes "number_text a" "number_text b"
    and "append_dynamodb_number_key_bytes a [] = Inr k" "append_dynamodb_number_key_bytes b [] = Inr l"
  shows "k @ s < l @ t \<longleftrightarrow> text_value a < text_value b \<or> text_value a = text_value b \<and> s < t"
  by (rule byte_key.composite_less_iff [OF assms])

theorem byte_key_order_witness:
  "\<exists>k l. append_dynamodb_number_key_bytes ''-3'' [] = Inr k \<and> append_dynamodb_number_key_bytes ''0'' [] = Inr l
     \<and> (k @ [1] < l @ [0] \<longleftrightarrow> text_value ''-3'' < text_value ''0'' \<or> text_value ''-3'' = text_value ''0'' \<and> [1::u8] < [0])"
proof -
  have "validate_dynamodb_number ''-3'' = Inr ()" "validate_dynamodb_number ''0'' = Inr ()" by code_simp+
  then have n: "number_text ''-3''" "number_text ''0''" by (simp_all add: number_text_def addressable_def)
  then obtain k l where kl: "append_dynamodb_number_key_bytes ''-3'' [] = Inr k"
    "append_dynamodb_number_key_bytes ''0'' [] = Inr l" using byte_key.enc_total by metis
  show ?thesis using kl byte_key_order [OF n kl] by blast
qed

text \<open>
  C18: The hexadecimal text keys of numbers sort as the numbers do, and two texts share a key
  exactly when they denote the same number.
\<close>

theorem hex_key_order:
  assumes "number_text a" "number_text b"
    and "encode_dynamodb_number_key a = Inr k" "encode_dynamodb_number_key b = Inr l"
  shows "(k < l \<longleftrightarrow> text_value a < text_value b) \<and> (k = l \<longleftrightarrow> text_value a = text_value b)
    \<and> length k = 83"
  using hex_key.key_less_iff [OF assms] hex_key.key_eq_iff [OF assms] hex_key.key_length [OF assms(1,3)]
  by blast

theorem hex_key_order_witness:
  "\<exists>k l. encode_dynamodb_number_key ''1.0'' = Inr k \<and> encode_dynamodb_number_key ''10'' = Inr l
     \<and> (k < l \<longleftrightarrow> text_value ''1.0'' < text_value ''10'') \<and> (k = l \<longleftrightarrow> text_value ''1.0'' = text_value ''10'')
     \<and> length k = 83"
proof -
  have "validate_dynamodb_number ''1.0'' = Inr ()" "validate_dynamodb_number ''10'' = Inr ()" by code_simp+
  then have n: "number_text ''1.0''" "number_text ''10''" by (simp_all add: number_text_def addressable_def)
  then obtain k l where kl: "encode_dynamodb_number_key ''1.0'' = Inr k"
    "encode_dynamodb_number_key ''10'' = Inr l" using hex_key.enc_total by metis
  show ?thesis using kl hex_key_order [OF n kl] by blast
qed

text \<open>
  C10: Decoding a number key, in either of its two forms, gives the canonical text of the number
  that was encoded.
\<close>

theorem key_round_trip:
  assumes "number_text s"
  shows "ebind (encode_dynamodb_number_key s) decode_dynamodb_number_key
        = map_err BadNumber (canonical_dynamodb_number s)
    \<and> ebind (append_dynamodb_number_key_bytes s []) decode_dynamodb_number_key_bytes
        = map_err BadNumber (canonical_dynamodb_number s)"
proof -
  obtain n where n: "parse s = Inr n" "wf_number n" "in_dynamodb_range n"
    "append_dynamodb_number_key_bytes s [] = Inr ([] @ key_bytes n)"
    "encode_dynamodb_number_key s = Inr (CHR ''~'' # concat (map hex_byte (key_bytes n)))"
    using number_text_key [OF assms] .
  then show ?thesis
    by (simp add: decode_dynamodb_number_key_def decode_dynamodb_number_key_bytes_def hex_text_length
        key_bytes_length decode_hex_text decode_key_bytes canonical_dynamodb_number_def del: length_concat)
qed

theorem key_round_trip_witness:
  "ebind (encode_dynamodb_number_key ''-2.50'') decode_dynamodb_number_key
        = map_err BadNumber (canonical_dynamodb_number ''-2.50'')
    \<and> ebind (append_dynamodb_number_key_bytes ''-2.50'' []) decode_dynamodb_number_key_bytes
        = map_err BadNumber (canonical_dynamodb_number ''-2.50'')"
proof (rule key_round_trip)
  have "validate_dynamodb_number ''-2.50'' = Inr ()" by code_simp
  then show "number_text ''-2.50''" by (simp add: number_text_def addressable_def)
qed

text \<open>
  C20: Canonical texts identify numbers: two accepted texts have the same canonical text exactly
  when they denote the same number.
\<close>

theorem canonical_identifies:
  assumes "number_text a" "number_text b"
  shows "canonical_dynamodb_number a = canonical_dynamodb_number b \<longleftrightarrow> text_value a = text_value b"
proof -
  obtain n where n: "parse a = Inr n" "wf_number n" "in_dynamodb_range n" "text_value a = number_value n"
    using number_text_parse [OF assms(1)] .
  obtain m where m: "parse b = Inr m" "wf_number m" "in_dynamodb_range m" "text_value b = number_value m"
    using number_text_parse [OF assms(2)] .
  have "canonical_string n = canonical_string m \<longleftrightarrow> n = m"
    using parse_canonical [OF n(2,3)] parse_canonical [OF m(2,3)] by (metis sum.inject(2))
  moreover have "number_value n = number_value m \<longleftrightarrow> n = m"
    using number_value_inject [OF n(2) m(2)] by blast
  ultimately show ?thesis by (simp add: n(1,4) m(1,4) canonical_dynamodb_number_def)
qed

theorem canonical_identifies_witness:
  "canonical_dynamodb_number ''1e1'' = canonical_dynamodb_number ''10.0'' \<longleftrightarrow> text_value ''1e1'' = text_value ''10.0''"
proof (rule canonical_identifies)
  have "validate_dynamodb_number ''1e1'' = Inr ()" "validate_dynamodb_number ''10.0'' = Inr ()" by code_simp+
  then show "number_text ''1e1''" "number_text ''10.0''" by (simp_all add: number_text_def addressable_def)
qed

end
