(* ===== verification/Attribute_Value.thy ===== *)
theory Attribute_Value
  imports Number_Order
begin

text \<open>
  Attribute values, the text operations of the standard library that the components use, and the
  two maps that keep their entries in a vector, \<open>VecMap\<close> and \<open>AttributeMap\<close>. The locale
  \<open>entry_map\<close> is what clients rely on; it is interpreted on both maps.
\<close>

section \<open>Text\<close>

text \<open>
  A Rust \<open>str\<close> is its UTF-8 byte string. \<open>str::starts_with\<close> and \<open>str::contains\<close> (and the
  same searches on byte slices), the number of UTF-16 units of a text, and
  \<open>str::parse::<usize>\<close>, which accepts a leading plus sign and leading zeros.
\<close>

definition starts_with :: "'a list \<Rightarrow> 'a list \<Rightarrow> bool" where
  "starts_with s p \<longleftrightarrow> take (length p) s = p"

fun contains_sub :: "'a list \<Rightarrow> 'a list \<Rightarrow> bool" where
  "contains_sub [] p \<longleftrightarrow> p = []"
| "contains_sub (c # s) p \<longleftrightarrow> starts_with (c # s) p \<or> contains_sub s p"

definition utf16_count :: "string \<Rightarrow> nat" where
  "utf16_count s =
     length (filter (\<lambda>c. \<not> (128 \<le> (of_char c :: nat) \<and> (of_char c :: nat) < 192)) s)
     + length (filter (\<lambda>c. 240 \<le> (of_char c :: nat)) s)"

definition parse_usize :: "string \<Rightarrow> nat option" where
  "parse_usize s =
     (let ds = (case s of [] \<Rightarrow> [] | c # t \<Rightarrow> if c = CHR ''+'' then t else s) in
      if ds \<noteq> [] \<and> all_digits ds \<and> digs_val ds < 2 ^ 64 then Some (digs_val ds) else None)"

lemma starts_with_append [simp]: "starts_with (p @ s) p"
  by (simp add: starts_with_def)

lemma starts_with_iff: "starts_with s p \<longleftrightarrow> (\<exists>t. s = p @ t)"
  by (metis append_take_drop_id starts_with_append starts_with_def)

lemma contains_sub_iff: "contains_sub s p \<longleftrightarrow> (\<exists>u t. s = u @ p @ t)"
proof (induction s)
  case (Cons c s)
  have "(\<exists>u t. c # s = u @ p @ t) \<longleftrightarrow> starts_with (c # s) p \<or> (\<exists>u t. s = u @ p @ t)"
    unfolding starts_with_iff by (metis append_Cons append_Nil list.inject neq_Nil_conv)
  with Cons show ?case by simp
qed simp

section \<open>Attribute values\<close>

text \<open>
  \<open>AttributeValue\<close>. The hash map of \<open>M\<close> is given by the list of its entries in some order; no
  operation of the model depends on which order it is.
\<close>

datatype attribute_value =
    S string
  | N string
  | B string
  | SS "string list"
  | NS "string list"
  | BS "string list"
  | BOOL bool
  | NULL bool
  | L "attribute_value list"
  | M "(string \<times> attribute_value) list"

section \<open>Maps kept as vectors of entries\<close>

text \<open>
  \<open>VecMap\<close>: \<open>get\<close> finds the first entry of a key, \<open>insert\<close> replaces the value of the first entry
  or pushes a new one and returns the value it replaced, \<open>remove\<close> takes out the first entry.
\<close>

fun vec_map_get :: "('k \<times> 'v) list \<Rightarrow> 'k \<Rightarrow> 'v option" where
  "vec_map_get [] key = None"
| "vec_map_get ((k, v) # entries) key = (if k = key then Some v else vec_map_get entries key)"

fun vec_map_insert :: "('k \<times> 'v) list \<Rightarrow> 'k \<Rightarrow> 'v \<Rightarrow> ('k \<times> 'v) list \<times> 'v option" where
  "vec_map_insert [] key value = ([(key, value)], None)"
| "vec_map_insert ((k, v) # entries) key value =
     (if k = key then ((k, value) # entries, Some v)
      else let (rest, old) = vec_map_insert entries key value in ((k, v) # rest, old))"

fun vec_map_remove :: "('k \<times> 'v) list \<Rightarrow> 'k \<Rightarrow> ('k \<times> 'v) list \<times> 'v option" where
  "vec_map_remove [] key = ([], None)"
| "vec_map_remove ((k, v) # entries) key =
     (if k = key then (entries, Some v)
      else let (rest, old) = vec_map_remove entries key in ((k, v) # rest, old))"

definition vec_map_contains_key :: "('k \<times> 'v) list \<Rightarrow> 'k \<Rightarrow> bool" where
  "vec_map_contains_key m key \<longleftrightarrow> vec_map_get m key \<noteq> None"

definition vec_map_eq :: "('k \<times> 'v) list \<Rightarrow> ('k \<times> 'v) list \<Rightarrow> bool" where
  "vec_map_eq m other \<longleftrightarrow>
     length m = length other \<and> list_all (\<lambda>(k, v). vec_map_get other k = Some v) m"

definition vec_map_from_iter :: "('k \<times> 'v) list \<Rightarrow> ('k \<times> 'v) list" where
  "vec_map_from_iter items = foldl (\<lambda>m (k, v). fst (vec_map_insert m k v)) [] items"

text \<open>\<open>AttributeMap\<close>: the same layout, keyed by attribute name; \<open>insert\<close> returns nothing.\<close>

type_synonym attribute_map = "(string \<times> attribute_value) list"

definition attribute_map_get :: "attribute_map \<Rightarrow> string \<Rightarrow> attribute_value option" where
  "attribute_map_get m name = map_option snd (find (\<lambda>(n, _). n = name) m)"

fun attribute_map_insert :: "attribute_map \<Rightarrow> string \<Rightarrow> attribute_value \<Rightarrow> attribute_map" where
  "attribute_map_insert [] name value = [(name, value)]"
| "attribute_map_insert ((n, v) # m) name value =
     (if n = name then (n, value) # m else (n, v) # attribute_map_insert m name value)"

fun attribute_map_remove :: "attribute_map \<Rightarrow> string \<Rightarrow> attribute_map \<times> attribute_value option" where
  "attribute_map_remove [] name = ([], None)"
| "attribute_map_remove ((n, v) # m) name =
     (if n = name then (m, Some v)
      else let (rest, old) = attribute_map_remove m name in ((n, v) # rest, old))"

definition attribute_map_retain :: "(string \<Rightarrow> attribute_value \<Rightarrow> bool) \<Rightarrow> attribute_map \<Rightarrow> attribute_map" where
  "attribute_map_retain keep m = filter (\<lambda>(n, v). keep n v) m"

definition attribute_map_from_iter :: "(string \<times> attribute_value) list \<Rightarrow> attribute_map" where
  "attribute_map_from_iter items = foldl (\<lambda>m (n, v). attribute_map_insert m n v) [] items"

text \<open>
  What the JSON reader of serde delivers of an object: the entries in wire order, each with its value decoded
  or the error of decoding it, and the error at a key or at the end that stops the reading, if there is one.
\<close>

type_synonym 'e json_object = "(string \<times> ('e + attribute_value)) list \<times> 'e option"

text \<open>The visitor that deserializes an attribute map also rejects a repeated name.\<close>

datatype 'e map_error = DuplicateName | ReaderError 'e

fun visit_attribute_map :: "(string \<times> ('e + attribute_value)) list \<Rightarrow> 'e option \<Rightarrow> attribute_map
    \<Rightarrow> 'e map_error + attribute_map" where
  "visit_attribute_map [] end_error attributes =
     (case end_error of Some e \<Rightarrow> Inl (ReaderError e) | None \<Rightarrow> Inr attributes)"
| "visit_attribute_map ((name, value) # access) end_error attributes =
     (if attribute_map_get attributes name \<noteq> None then Inl DuplicateName
      else case value of Inl e \<Rightarrow> Inl (ReaderError e)
           | Inr v \<Rightarrow> visit_attribute_map access end_error (attributes @ [(name, v)]))"

abbreviation keys_distinct :: "('k \<times> 'v) list \<Rightarrow> bool" where
  "keys_distinct m \<equiv> distinct (map fst m)"

section \<open>The contract of an entry map\<close>

text \<open>
  What clients rely on: a lookup after an insert or a removal, the value that an operation
  returns, and that names stay unique.
\<close>

locale entry_map =
  fixes get :: "'m \<Rightarrow> 'k \<Rightarrow> 'v option"
    and insert :: "'m \<Rightarrow> 'k \<Rightarrow> 'v \<Rightarrow> 'm"
    and remove :: "'m \<Rightarrow> 'k \<Rightarrow> 'm \<times> 'v option"
    and inv :: "'m \<Rightarrow> bool"
  assumes get_insert: "get (insert m k v) k' = (if k' = k then Some v else get m k')"
    and get_remove: "inv m \<Longrightarrow> get (fst (remove m k)) k' = (if k' = k then None else get m k')"
    and remove_value: "snd (remove m k) = get m k"
    and inv_insert: "inv m \<Longrightarrow> inv (insert m k v)"
    and inv_remove: "inv m \<Longrightarrow> inv (fst (remove m k))"
begin

lemma insert_swap: "k \<noteq> k' \<Longrightarrow> get (insert (insert m k v) k' v') = get (insert (insert m k' v') k v)"
  by (auto simp: get_insert)

lemma insert_twice: "get (insert (insert m k v) k v') = get (insert m k v')"
  by (auto simp: get_insert)

lemma remove_insert: "inv m \<Longrightarrow> get (fst (remove (insert m k v) k)) = get (fst (remove m k))"
  by (auto simp: get_insert get_remove inv_insert)

lemma get_foldl_insert:
  "get (foldl (\<lambda>m (k, v). insert m k v) m kvs) k =
     (case map_of (rev kvs) k of Some v \<Rightarrow> Some v | None \<Rightarrow> get m k)"
  by (induction kvs arbitrary: m) (auto simp: get_insert map_add_def split: option.splits)

lemma inv_foldl_insert: "inv m \<Longrightarrow> inv (foldl (\<lambda>m (k, v). insert m k v) m kvs)"
  by (induction kvs arbitrary: m) (auto simp: inv_insert)

end

lemma vec_map_get_map_of: "vec_map_get m = map_of m"
  by (rule ext, rule vec_map_get.induct [of "\<lambda>m k. vec_map_get m k = map_of m k"]) auto

lemma vec_map_insert_Cons:
  "fst (vec_map_insert ((k', v') # m) k v) =
     (if k' = k then (k', v) # m else (k', v') # fst (vec_map_insert m k v))"
  by (simp add: split_beta)

lemma vec_map_remove_Cons:
  "fst (vec_map_remove ((k', v') # m) k) = (if k' = k then m else (k', v') # fst (vec_map_remove m k))"
  "snd (vec_map_remove ((k', v') # m) k) = (if k' = k then Some v' else snd (vec_map_remove m k))"
  by (simp_all add: split_beta)

lemmas vec_map_Cons = vec_map_insert_Cons vec_map_remove_Cons
declare vec_map_insert.simps(2) [simp del] vec_map_remove.simps(2) [simp del]

lemma vec_map_insert_keys:
  "fst ` set (fst (vec_map_insert m k v)) = insert k (fst ` set m)"
proof (induction m)
  case (Cons e m) then show ?case by (cases e) (simp add: vec_map_Cons insert_commute)
qed simp

lemma vec_map_remove_keys: "fst ` set (fst (vec_map_remove m k)) \<subseteq> fst ` set m"
proof (induction m)
  case (Cons e m) then show ?case by (cases e) (auto simp: vec_map_Cons)
qed simp

lemma vec_map_get_None: "vec_map_get m k = None \<longleftrightarrow> k \<notin> fst ` set m"
  by (simp add: vec_map_get_map_of map_of_eq_None_iff)

interpretation vec_map: entry_map vec_map_get "\<lambda>m k v. fst (vec_map_insert m k v)" vec_map_remove keys_distinct
proof unfold_locales
  fix m :: "('a \<times> 'b) list" and k k' v
  show "vec_map_get (fst (vec_map_insert m k v)) k' = (if k' = k then Some v else vec_map_get m k')"
    by (induction m) (auto simp: vec_map_Cons)
  show "snd (vec_map_remove m k) = vec_map_get m k"
    by (induction m) (auto simp: vec_map_Cons)
  assume d: "keys_distinct m"
  show "vec_map_get (fst (vec_map_remove m k)) k' = (if k' = k then None else vec_map_get m k')"
    using d
  proof (induction m)
    case (Cons e m)
    then show ?case using vec_map_get_None [of m k] by (cases e) (auto simp: vec_map_Cons split: if_splits)
  qed simp
  show "keys_distinct (fst (vec_map_insert m k v))"
    using d
  proof (induction m)
    case (Cons e m) then show ?case by (cases e) (simp add: vec_map_Cons vec_map_insert_keys, blast)
  qed simp
  show "keys_distinct (fst (vec_map_remove m k))"
    using d
  proof (induction m)
    case (Cons e m) then show ?case
      using vec_map_remove_keys [of m k] by (cases e) (auto simp: vec_map_Cons)
  qed simp
qed

lemma attribute_map_get_vec: "attribute_map_get m = vec_map_get m"
proof
  show "attribute_map_get m k = vec_map_get m k" for k
    by (induction m) (auto simp: attribute_map_get_def)
qed

lemma attribute_map_insert_vec: "attribute_map_insert m k v = fst (vec_map_insert m k v)"
  by (induction m k v rule: attribute_map_insert.induct) (auto simp: vec_map_Cons)

lemma attribute_map_remove_vec: "attribute_map_remove m k = vec_map_remove m k"
  by (induction m k rule: attribute_map_remove.induct) (auto simp: vec_map_remove.simps)

interpretation attr_map: entry_map attribute_map_get attribute_map_insert attribute_map_remove keys_distinct
  unfolding attribute_map_get_vec [abs_def] attribute_map_insert_vec [abs_def] attribute_map_remove_vec [abs_def]
  by (rule vec_map.entry_map_axioms)

section \<open>Properties\<close>

lemma keys_same_length:
  assumes "keys_distinct m" "keys_distinct n" "length m = length n" "fst ` set m \<subseteq> fst ` set n"
  shows "fst ` set m = fst ` set n"
  using assms by (metis List.finite_set card_subset_eq distinct_card finite_imageI image_set length_map)

lemma vec_map_eq_extensional_aux:
  assumes "keys_distinct m" "keys_distinct n" "vec_map_eq m n"
  shows "vec_map_get m k = vec_map_get n k"
proof (cases "vec_map_get m k")
  case None
  have "fst ` set m \<subseteq> fst ` set n"
    using assms(3) by (force simp: vec_map_eq_def list_all_iff vec_map_get_map_of dest: map_of_SomeD)
  then have "fst ` set m = fst ` set n"
    using keys_same_length assms by (metis vec_map_eq_def)
  then show ?thesis using None vec_map_get_None by metis
next
  case (Some v)
  then have "(k, v) \<in> set m" by (simp add: vec_map_get_map_of map_of_SomeD)
  then show ?thesis using assms(3) Some by (auto simp: vec_map_eq_def list_all_iff)
qed

lemma vec_map_eq_iff:
  assumes "keys_distinct m" "keys_distinct n"
  shows "vec_map_eq m n \<longleftrightarrow> (\<forall>k. vec_map_get m k = vec_map_get n k)"
proof
  assume g: "\<forall>k. vec_map_get m k = vec_map_get n k"
  then have "map_of m = map_of n" by (simp add: vec_map_get_map_of fun_eq_iff)
  then have "set m = set n" using map_of_inject_set [OF assms] by simp
  moreover have "distinct m" "distinct n" using assms by (simp_all add: distinct_map)
  ultimately have "length m = length n" by (metis distinct_card)
  moreover have "list_all (\<lambda>(k, v). vec_map_get n k = Some v) m"
    using \<open>set m = set n\<close> assms(2) by (auto simp: list_all_iff vec_map_get_map_of)
  ultimately show "vec_map_eq m n" by (simp add: vec_map_eq_def)
qed (use vec_map_eq_extensional_aux [OF assms] in blast)

text \<open>
  C30: Equality of maps kept as vectors (equal lengths and every entry found in the other map) is
  equality as maps, whatever the order of the entries, when names are unique.
\<close>

theorem vec_map_eq_extensional:
  assumes "keys_distinct m" "keys_distinct n"
  shows "vec_map_eq m n \<longleftrightarrow> (\<forall>k. vec_map_get m k = vec_map_get n k)"
  by (rule vec_map_eq_iff [OF assms])

theorem vec_map_eq_extensional_witness:
  "vec_map_eq [(1::nat, True), (2, False)] [(2, False), (1, True)]"
proof -
  have "keys_distinct [(1::nat, True), (2, False)]" "keys_distinct [(2::nat, False), (1, True)]" by simp_all
  from vec_map_eq_extensional [OF this] show ?thesis by simp
qed

abbreviation decoded :: "('k \<times> 'v) list \<Rightarrow> ('k \<times> ('e + 'v)) list" where
  "decoded m \<equiv> map (\<lambda>(k, v). (k, Inr v)) m"

lemma visit_attribute_map_step:
  "k \<notin> fst ` set acc \<Longrightarrow> visit_attribute_map ((k, Inr v) # es) end_error acc = visit_attribute_map es end_error (acc @ [(k, v)])"
  "k \<in> fst ` set acc \<Longrightarrow> visit_attribute_map ((k, x) # es) end_error acc = Inl DuplicateName"
  "k \<notin> fst ` set acc \<Longrightarrow> visit_attribute_map ((k, Inl e) # es) end_error acc = Inl (ReaderError e)"
  by (simp_all add: attribute_map_get_vec vec_map_get_None)

lemma visit_attribute_map_decoded:
  "keys_distinct (acc @ kvs) \<Longrightarrow>
    visit_attribute_map (decoded kvs @ es) end_error acc = visit_attribute_map es end_error (acc @ kvs)"
proof (induction kvs arbitrary: acc)
  case (Cons kv kvs)
  then show ?case using visit_attribute_map_step(1) [of "fst kv" acc "snd kv" "decoded kvs @ es" end_error]
    by (cases kv) simp
qed simp

text \<open>Entries that decode under different names, and the first entry that does not, if there is one.\<close>

lemma decoded_prefix:
  "\<exists>kvs rest. es = decoded kvs @ rest \<and> keys_distinct (acc @ kvs)
    \<and> (case rest of [] \<Rightarrow> True | (k, x) # _ \<Rightarrow> k \<in> fst ` set (acc @ kvs) \<or> isl x)" if "keys_distinct acc"
  using that
proof (induction es arbitrary: acc)
  case Nil
  then show ?case by simp
next
  case (Cons e es)
  obtain k x where e: "e = (k, x)" by (cases e)
  show ?case
  proof (cases "k \<in> fst ` set acc \<or> isl x")
    case True
    then show ?thesis using Cons.prems e by (intro exI [of _ "[]"] exI [of _ "e # es"]) simp
  next
    case False
    then obtain v where x: "x = Inr v" by (cases x) auto
    obtain kvs rest where "es = decoded kvs @ rest" "keys_distinct ((acc @ [(k, v)]) @ kvs)"
      "case rest of [] \<Rightarrow> True | (k', x) # _ \<Rightarrow> k' \<in> fst ` set ((acc @ [(k, v)]) @ kvs) \<or> isl x"
      using Cons.IH [of "acc @ [(k, v)]"] Cons.prems False by auto
    then show ?thesis using e x by (intro exI [of _ "(k, v) # kvs"] exI [of _ rest]) (auto split: list.splits)
  qed
qed

lemma visit_attribute_map_ok:
  "visit_attribute_map es end_error [] = Inr m \<longleftrightarrow> end_error = None \<and> es = decoded m \<and> keys_distinct m"
proof
  assume v: "visit_attribute_map es end_error [] = Inr m"
  obtain kvs rest where r: "es = decoded kvs @ rest" "keys_distinct kvs"
    "case rest of [] \<Rightarrow> True | (k, x) # _ \<Rightarrow> k \<in> fst ` set kvs \<or> isl x"
    using decoded_prefix [of "[]" es, unfolded append_Nil] by auto
  with v have w: "visit_attribute_map rest end_error kvs = Inr m" using visit_attribute_map_decoded [of "[]" kvs rest end_error] by simp
  show "end_error = None \<and> es = decoded m \<and> keys_distinct m"
  proof (cases rest)
    case Nil then show ?thesis using r w by (simp split: option.splits)
  next
    case (Cons e es')
    then show ?thesis using r(3) w visit_attribute_map_step(2,3) [of "fst e" kvs]
      by (cases e; cases "snd e"; cases "fst e \<in> fst ` set kvs") (auto simp: attribute_map_get_vec vec_map_get_None)
  qed
next
  assume "end_error = None \<and> es = decoded m \<and> keys_distinct m"
  then show "visit_attribute_map es end_error [] = Inr m" using visit_attribute_map_decoded [of "[]" m "[]" end_error] by simp
qed

text \<open>
  C29: Deserializing an attribute map succeeds exactly when the reader reads every key and the end of the
  object, every value decodes and no name repeats, and then keeps the entries in wire order. Otherwise the
  error is that of the first entry that repeats a name or does not decode, where a repeated name is
  reported before its value is read, or that of the reader when there is no such entry.
\<close>

theorem visit_attribute_map_iff:
  "(visit_attribute_map es end_error [] = Inr m \<longleftrightarrow> end_error = None \<and> es = decoded m \<and> keys_distinct m)
   \<and> (keys_distinct kvs \<longrightarrow>
       visit_attribute_map (decoded kvs) (Some e) [] = Inl (ReaderError e)
       \<and> (k \<in> fst ` set kvs \<longrightarrow> visit_attribute_map (decoded kvs @ (k, x) # rest) end_error [] = Inl DuplicateName)
       \<and> (k \<notin> fst ` set kvs \<longrightarrow> visit_attribute_map (decoded kvs @ (k, Inl e) # rest) end_error [] = Inl (ReaderError e)))"
  using visit_attribute_map_decoded [of "[]" kvs "[]" "Some e"]
    visit_attribute_map_decoded [of "[]" kvs "(k, x) # rest" end_error]
    visit_attribute_map_decoded [of "[]" kvs "(k, Inl e) # rest" end_error]
  by (simp add: visit_attribute_map_ok visit_attribute_map_step del: visit_attribute_map.simps(2))

theorem visit_attribute_map_iff_witness:
  "(visit_attribute_map [(''a'', Inr (N ''1'')), (''b'', Inr (S ''x''))] (None :: string option) [] = Inr [(''a'', N ''1''), (''b'', S ''x'')])
   \<and> visit_attribute_map (decoded [(''a'', N ''1'')]) (Some ''unexpected end'') [] = Inl (ReaderError ''unexpected end'')
   \<and> visit_attribute_map (decoded [(''a'', N ''1'')] @ [(''a'', Inl ''bad'')]) None [] = Inl DuplicateName"
  using visit_attribute_map_iff [of "[(''a'', Inr (N ''1'')), (''b'', Inr (S ''x''))]" None "[(''a'', N ''1''), (''b'', S ''x'')]"
      "[(''a'', N ''1'')]" "''bad''" "''a''" "Inl ''bad''" "[]"]
    visit_attribute_map_iff [of "[]" None "[]" "[(''a'', N ''1'')]" "''unexpected end''" "''b''" "Inl []" "[]"]
  by (simp del: visit_attribute_map.simps)

end
