(* ===== verification/Condition_Eval.thy ===== *)
theory Condition_Eval
  imports Attribute_Value
begin

text \<open>
  Conditions of the condition-expression language and two of the evaluators of
  \<open>storage-condition\<close>: against an item in memory (\<open>evaluate_condition\<close>) and against a resolver
  of root attributes that may fail (\<open>try_evaluate_condition_with_root\<close>).
\<close>

section \<open>Conditions\<close>

datatype size_comparison = SizeEqual | SizeNotEqual | SizeLessThan | SizeLessThanEqual
  | SizeGreaterThan | SizeGreaterThanEqual

datatype condition =
    NotExists string
  | Exists string
  | LessThan string string
  | LessThanEqual string string
  | GreaterThan string string
  | GreaterThanEqual string string
  | Equal string attribute_value
  | NotEqual string attribute_value
  | Between string string string
  | InValues string "attribute_value list"
  | ValueEqual attribute_value attribute_value
  | ValueNotEqual attribute_value attribute_value
  | Contains string attribute_value
  | BeginsWith string attribute_value
  | AttributeType string string
  | Size string nat
  | SizeCompare string size_comparison nat
  | CAnd "condition list"
  | COr "condition list"
  | CNot condition

fun visit_attribute_paths :: "condition \<Rightarrow> string list" where
  "visit_attribute_paths (NotExists field) = [field]"
| "visit_attribute_paths (Exists field) = [field]"
| "visit_attribute_paths (LessThan field _) = [field]"
| "visit_attribute_paths (LessThanEqual field _) = [field]"
| "visit_attribute_paths (GreaterThan field _) = [field]"
| "visit_attribute_paths (GreaterThanEqual field _) = [field]"
| "visit_attribute_paths (Equal field _) = [field]"
| "visit_attribute_paths (NotEqual field _) = [field]"
| "visit_attribute_paths (Between field _ _) = [field]"
| "visit_attribute_paths (InValues field _) = [field]"
| "visit_attribute_paths (Contains field _) = [field]"
| "visit_attribute_paths (BeginsWith field _) = [field]"
| "visit_attribute_paths (AttributeType field _) = [field]"
| "visit_attribute_paths (Size field _) = [field]"
| "visit_attribute_paths (SizeCompare field _ _) = [field]"
| "visit_attribute_paths (CAnd conditions) = concat (map visit_attribute_paths conditions)"
| "visit_attribute_paths (COr conditions) = concat (map visit_attribute_paths conditions)"
| "visit_attribute_paths (CNot c) = visit_attribute_paths c"
| "visit_attribute_paths (ValueEqual _ _) = []"
| "visit_attribute_paths (ValueNotEqual _ _) = []"

section \<open>Tests on one value\<close>

text \<open>\<open>base64::decode\<close> is the parameter \<open>b64\<close>: the decoded bytes, or \<open>None\<close> for invalid input.\<close>

type_synonym base64 = "string \<Rightarrow> u8 list option"

definition less_than_value :: "attribute_value \<Rightarrow> string \<Rightarrow> bool" where
  "less_than_value field_value value =
     (case field_value of
        N n \<Rightarrow> is_ok_and (compare_dynamodb_numbers n value) is_lt
      | S s \<Rightarrow> s < value
      | B b \<Rightarrow> b < value
      | _ \<Rightarrow> False)"

definition less_than_equal_value :: "attribute_value \<Rightarrow> string \<Rightarrow> bool" where
  "less_than_equal_value field_value value =
     (case field_value of
        N n \<Rightarrow> is_ok_and (compare_dynamodb_numbers n value) is_le
      | S s \<Rightarrow> s \<le> value
      | B b \<Rightarrow> b \<le> value
      | _ \<Rightarrow> False)"

definition greater_than_value :: "attribute_value \<Rightarrow> string \<Rightarrow> bool" where
  "greater_than_value field_value value =
     (case field_value of
        N n \<Rightarrow> is_ok_and (compare_dynamodb_numbers n value) is_gt
      | S s \<Rightarrow> s > value
      | B b \<Rightarrow> b > value
      | _ \<Rightarrow> False)"

definition greater_than_equal_value :: "attribute_value \<Rightarrow> string \<Rightarrow> bool" where
  "greater_than_equal_value field_value value =
     (case field_value of
        N n \<Rightarrow> is_ok_and (compare_dynamodb_numbers n value) is_ge
      | S s \<Rightarrow> s \<ge> value
      | B b \<Rightarrow> b \<ge> value
      | _ \<Rightarrow> False)"

definition between_values :: "attribute_value \<Rightarrow> string \<Rightarrow> string \<Rightarrow> bool" where
  "between_values field_value lower upper =
     (case field_value of
        N n \<Rightarrow> is_ok_and (compare_dynamodb_numbers n lower) is_ge
              \<and> is_ok_and (compare_dynamodb_numbers n upper) is_le
      | S s \<Rightarrow> s \<ge> lower \<and> s \<le> upper
      | B b \<Rightarrow> b \<ge> lower \<and> b \<le> upper
      | _ \<Rightarrow> False)"

definition string_sets_equal :: "string list \<Rightarrow> string list \<Rightarrow> bool" where
  "string_sets_equal left right \<longleftrightarrow>
     length left = length right \<and> list_all (\<lambda>value. value \<in> set right) left"

definition number_sets_equal :: "string list \<Rightarrow> string list \<Rightarrow> bool" where
  "number_sets_equal left right \<longleftrightarrow>
     length left = length right
     \<and> list_all (\<lambda>value. list_ex (\<lambda>candidate. is_ok_and (compare_dynamodb_numbers value candidate) is_eq) right) left"

lemma size_in_list: "x \<in> set xs \<Longrightarrow> size x < Suc (size_list size xs)"
  by (induction xs) auto

lemma size_in_zip: "(x, y) \<in> set (zip xs ys) \<Longrightarrow> size x < Suc (size_list size xs)"
  using size_in_list set_zip_leftD by metis

lemma size_in_map: "(k, v) \<in> set m \<Longrightarrow> size v < Suc (size_list (size_prod (\<lambda>_. 0) size) m)"
  by (induction m) auto

function dynamodb_attribute_values_equal :: "attribute_value \<Rightarrow> attribute_value \<Rightarrow> bool" where
  "dynamodb_attribute_values_equal left right =
     (case left of
        N l \<Rightarrow> (case right of
            N r \<Rightarrow> is_ok_and (compare_dynamodb_numbers l r) is_eq
          | _ \<Rightarrow> left = right)
      | SS l \<Rightarrow> (case right of SS r \<Rightarrow> string_sets_equal l r | _ \<Rightarrow> left = right)
      | BS l \<Rightarrow> (case right of BS r \<Rightarrow> string_sets_equal l r | _ \<Rightarrow> left = right)
      | NS l \<Rightarrow> (case right of NS r \<Rightarrow> number_sets_equal l r | _ \<Rightarrow> left = right)
      | L l \<Rightarrow> (case right of
            L r \<Rightarrow> length l = length r
                 \<and> list_all (\<lambda>(x, y). dynamodb_attribute_values_equal x y) (zip l r)
          | _ \<Rightarrow> left = right)
      | M l \<Rightarrow> (case right of
            M r \<Rightarrow> length l = length r
                 \<and> list_all (\<lambda>(name, value). case vec_map_get r name of
                       None \<Rightarrow> False
                     | Some other \<Rightarrow> dynamodb_attribute_values_equal value other) l
          | _ \<Rightarrow> left = right)
      | _ \<Rightarrow> left = right)"
  by auto
termination
  by (relation "measure (size o fst)") (auto intro: size_in_zip size_in_map)

declare dynamodb_attribute_values_equal.simps [simp del]

definition attribute_size :: "base64 \<Rightarrow> attribute_value \<Rightarrow> nat option" where
  "attribute_size b64 value =
     (case value of
        S s \<Rightarrow> Some (utf16_count s)
      | B b \<Rightarrow> map_option length (b64 b)
      | SS ss \<Rightarrow> Some (length ss)
      | NS ns \<Rightarrow> Some (length ns)
      | BS bs \<Rightarrow> Some (length bs)
      | L l \<Rightarrow> Some (length l)
      | M m \<Rightarrow> Some (length m)
      | _ \<Rightarrow> None)"

fun attribute_type_code :: "attribute_value \<Rightarrow> string option" where
  "attribute_type_code (S _) = Some ''S''"
| "attribute_type_code (N _) = Some ''N''"
| "attribute_type_code (B _) = Some ''B''"
| "attribute_type_code (SS _) = Some ''SS''"
| "attribute_type_code (NS _) = Some ''NS''"
| "attribute_type_code (BS _) = Some ''BS''"
| "attribute_type_code (BOOL _) = Some ''BOOL''"
| "attribute_type_code (NULL b) = (if b then Some ''NULL'' else None)"
| "attribute_type_code (L _) = Some ''L''"
| "attribute_type_code (M _) = Some ''M''"

definition decoded_binary_contains :: "base64 \<Rightarrow> string \<Rightarrow> string \<Rightarrow> bool" where
  "decoded_binary_contains b64 value operand =
     (case b64 value of None \<Rightarrow> False
      | Some v \<Rightarrow> (case b64 operand of None \<Rightarrow> False | Some p \<Rightarrow> p \<noteq> [] \<and> contains_sub v p))"

definition decoded_binary_starts_with :: "base64 \<Rightarrow> string \<Rightarrow> string \<Rightarrow> bool" where
  "decoded_binary_starts_with b64 value operand =
     (case b64 value of None \<Rightarrow> False
      | Some v \<Rightarrow> (case b64 operand of None \<Rightarrow> False | Some p \<Rightarrow> starts_with v p))"

definition contains_attribute :: "base64 \<Rightarrow> attribute_value \<Rightarrow> attribute_value \<Rightarrow> bool" where
  "contains_attribute b64 field_value value =
     (case field_value of
        S s \<Rightarrow> (case value of S v \<Rightarrow> contains_sub s v | _ \<Rightarrow> False)
      | B b \<Rightarrow> (case value of B v \<Rightarrow> decoded_binary_contains b64 b v | _ \<Rightarrow> False)
      | SS ss \<Rightarrow> (case value of S v \<Rightarrow> v \<in> set ss | _ \<Rightarrow> False)
      | NS ns \<Rightarrow> (case value of
            N v \<Rightarrow> list_ex (\<lambda>member. is_ok_and (compare_dynamodb_numbers member v) is_eq) ns
          | _ \<Rightarrow> False)
      | BS bs \<Rightarrow> (case value of B v \<Rightarrow> v \<in> set bs | _ \<Rightarrow> False)
      | L l \<Rightarrow> list_ex (\<lambda>elem. dynamodb_attribute_values_equal elem value) l
      | _ \<Rightarrow> False)"

definition begins_with_value :: "base64 \<Rightarrow> attribute_value \<Rightarrow> attribute_value \<Rightarrow> bool" where
  "begins_with_value b64 field_value prefix =
     (case field_value of
        S s \<Rightarrow> (case prefix of S p \<Rightarrow> starts_with s p | _ \<Rightarrow> False)
      | B b \<Rightarrow> (case prefix of B p \<Rightarrow> decoded_binary_starts_with b64 b p | _ \<Rightarrow> False)
      | _ \<Rightarrow> False)"

fun size_compare :: "size_comparison \<Rightarrow> nat \<Rightarrow> nat \<Rightarrow> bool" where
  "size_compare SizeEqual actual expected = (actual = expected)"
| "size_compare SizeNotEqual actual expected = (actual \<noteq> expected)"
| "size_compare SizeLessThan actual expected = (actual < expected)"
| "size_compare SizeLessThanEqual actual expected = (actual \<le> expected)"
| "size_compare SizeGreaterThan actual expected = (actual > expected)"
| "size_compare SizeGreaterThanEqual actual expected = (actual \<ge> expected)"

section \<open>Paths\<close>

text \<open>
  A path is kept as text, \<open>root.key[index]\<close>; the cursor of the source is the unread suffix.
\<close>

definition path_separator :: "char \<Rightarrow> bool" where
  "path_separator c \<longleftrightarrow> c = CHR ''.'' \<or> c = CHR ''[''"

definition root_field :: "string \<Rightarrow> string" where
  "root_field path = takeWhile (\<lambda>c. \<not> path_separator c) path"

definition path_rest :: "string \<Rightarrow> string" where
  "path_rest path = dropWhile (\<lambda>c. \<not> path_separator c) path"

lemma length_path_rest [termination_simp]: "length (path_rest s) < Suc (length s)"
  by (simp add: path_rest_def length_dropWhile_le less_Suc_eq_le)

lemma length_tl_dropWhile [termination_simp]: "length (dropWhile P s) - Suc 0 < Suc (length s)"
  using length_dropWhile_le [of P s] by linarith

fun walk_path :: "string \<Rightarrow> attribute_value \<Rightarrow> attribute_value option" where
  "walk_path [] current = Some current"
| "walk_path (c # rest) current =
     (if c = CHR ''.'' then
        (case current of
           M entries \<Rightarrow> (case vec_map_get entries (root_field rest) of
               None \<Rightarrow> None
             | Some value \<Rightarrow> walk_path (path_rest rest) value)
         | _ \<Rightarrow> None)
      else if c = CHR ''['' then
        (if CHR '']'' \<notin> set rest then None
         else case parse_usize (takeWhile (\<lambda>c. c \<noteq> CHR '']'') rest) of
             None \<Rightarrow> None
           | Some index \<Rightarrow> (case current of
               L elems \<Rightarrow> if index < length elems
                 then walk_path (tl (dropWhile (\<lambda>c. c \<noteq> CHR '']'') rest)) (elems ! index) else None
             | _ \<Rightarrow> None))
      else None)"

definition get_path_value :: "(string \<Rightarrow> attribute_value option) \<Rightarrow> string \<Rightarrow> attribute_value option" where
  "get_path_value item path =
     (case item (root_field path) of None \<Rightarrow> None | Some current \<Rightarrow> walk_path (path_rest path) current)"

text \<open>The variant on owned values takes the key out of the map and the element out of the list.\<close>

fun walk_path_owned :: "string \<Rightarrow> attribute_value \<Rightarrow> attribute_value option" where
  "walk_path_owned [] current = Some current"
| "walk_path_owned (c # rest) current =
     (if c = CHR ''.'' then
        (case current of
           M entries \<Rightarrow> (case snd (vec_map_remove entries (root_field rest)) of
               None \<Rightarrow> None
             | Some value \<Rightarrow> walk_path_owned (path_rest rest) value)
         | _ \<Rightarrow> None)
      else if c = CHR ''['' then
        (if CHR '']'' \<notin> set rest then None
         else case parse_usize (takeWhile (\<lambda>c. c \<noteq> CHR '']'') rest) of
             None \<Rightarrow> None
           | Some index \<Rightarrow> (case current of
               L elems \<Rightarrow> (case drop index elems of
                   [] \<Rightarrow> None
                 | value # _ \<Rightarrow> walk_path_owned (tl (dropWhile (\<lambda>c. c \<noteq> CHR '']'') rest)) value)
             | _ \<Rightarrow> None))
      else None)"

section \<open>Evaluation against a lookup\<close>

text \<open>An item is its attribute lookup (\<open>AttributeValueLookup::get_attribute_value\<close>).\<close>

definition on_path :: "attribute_value option \<Rightarrow> bool \<Rightarrow> (attribute_value \<Rightarrow> bool) \<Rightarrow> bool" where
  "on_path v missing test = (case v of None \<Rightarrow> missing | Some field_value \<Rightarrow> test field_value)"

fun evaluate_condition :: "base64 \<Rightarrow> (string \<Rightarrow> attribute_value option) \<Rightarrow> condition \<Rightarrow> bool" where
  "evaluate_condition b64 item (Exists field) = (get_path_value item field \<noteq> None)"
| "evaluate_condition b64 item (NotExists field) = (get_path_value item field = None)"
| "evaluate_condition b64 item (LessThan field value) =
     on_path (get_path_value item field) False (\<lambda>v. less_than_value v value)"
| "evaluate_condition b64 item (LessThanEqual field value) =
     on_path (get_path_value item field) False (\<lambda>v. less_than_equal_value v value)"
| "evaluate_condition b64 item (GreaterThan field value) =
     on_path (get_path_value item field) False (\<lambda>v. greater_than_value v value)"
| "evaluate_condition b64 item (GreaterThanEqual field value) =
     on_path (get_path_value item field) False (\<lambda>v. greater_than_equal_value v value)"
| "evaluate_condition b64 item (Equal field value) =
     on_path (get_path_value item field) False (\<lambda>v. dynamodb_attribute_values_equal v value)"
| "evaluate_condition b64 item (NotEqual field value) =
     on_path (get_path_value item field) True (\<lambda>v. \<not> dynamodb_attribute_values_equal v value)"
| "evaluate_condition b64 item (Between field lower upper) =
     on_path (get_path_value item field) False (\<lambda>v. between_values v lower upper)"
| "evaluate_condition b64 item (InValues field values) =
     on_path (get_path_value item field) False
       (\<lambda>v. list_ex (\<lambda>value. dynamodb_attribute_values_equal v value) values)"
| "evaluate_condition b64 item (ValueEqual left right) = dynamodb_attribute_values_equal left right"
| "evaluate_condition b64 item (ValueNotEqual left right) = (\<not> dynamodb_attribute_values_equal left right)"
| "evaluate_condition b64 item (Contains field value) =
     on_path (get_path_value item field) False (\<lambda>v. contains_attribute b64 v value)"
| "evaluate_condition b64 item (BeginsWith field prefix) =
     on_path (get_path_value item field) False (\<lambda>v. begins_with_value b64 v prefix)"
| "evaluate_condition b64 item (AttributeType field attribute_type) =
     on_path (get_path_value item field) False (\<lambda>v. attribute_type_code v = Some attribute_type)"
| "evaluate_condition b64 item (Size field expected) =
     on_path (get_path_value item field) False (\<lambda>v. attribute_size b64 v = Some expected)"
| "evaluate_condition b64 item (SizeCompare field operator expected) =
     on_path (get_path_value item field) False
       (\<lambda>v. case attribute_size b64 v of None \<Rightarrow> False | Some actual \<Rightarrow> size_compare operator actual expected)"
| "evaluate_condition b64 item (CAnd conditions) = list_all (evaluate_condition b64 item) conditions"
| "evaluate_condition b64 item (COr conditions) = list_ex (evaluate_condition b64 item) conditions"
| "evaluate_condition b64 item (CNot c) = (\<not> evaluate_condition b64 item c)"

section \<open>Evaluation against a resolver that may fail\<close>

text \<open>
  \<open>FnMut(&str) -> Result<Option<AttributeValue>, E>\<close>: the resolver may change a state of its own,
  which the evaluators thread through.
\<close>

type_synonym ('s, 'e) resolver = "string \<Rightarrow> 's \<Rightarrow> ('e + attribute_value option) \<times> 's"

definition try_get_path_value :: "('s, 'e) resolver \<Rightarrow> string \<Rightarrow> 's \<Rightarrow> ('e + attribute_value option) \<times> 's" where
  "try_get_path_value root_value path s =
     (case root_value (root_field path) s of
        (Inl e, s') \<Rightarrow> (Inl e, s')
      | (Inr None, s') \<Rightarrow> (Inr None, s')
      | (Inr (Some current), s') \<Rightarrow> (Inr (walk_path_owned (path_rest path) current), s'))"

definition try_on_path :: "('e + attribute_value option) \<times> 's \<Rightarrow> bool \<Rightarrow> (attribute_value \<Rightarrow> bool)
    \<Rightarrow> ('e + bool) \<times> 's" where
  "try_on_path r missing test =
     (case r of (Inl e, s) \<Rightarrow> (Inl e, s) | (Inr v, s) \<Rightarrow> (Inr (on_path v missing test), s))"

fun try_evaluate_condition_with_root
    :: "base64 \<Rightarrow> condition \<Rightarrow> ('s, 'e) resolver \<Rightarrow> 's \<Rightarrow> ('e + bool) \<times> 's"
  and try_evaluate_all :: "base64 \<Rightarrow> condition list \<Rightarrow> ('s, 'e) resolver \<Rightarrow> 's \<Rightarrow> ('e + bool) \<times> 's"
  and try_evaluate_any :: "base64 \<Rightarrow> condition list \<Rightarrow> ('s, 'e) resolver \<Rightarrow> 's \<Rightarrow> ('e + bool) \<times> 's" where
  "try_evaluate_condition_with_root b64 (Exists field) rv s =
     try_on_path (try_get_path_value rv field s) False (\<lambda>_. True)"
| "try_evaluate_condition_with_root b64 (NotExists field) rv s =
     try_on_path (try_get_path_value rv field s) True (\<lambda>_. False)"
| "try_evaluate_condition_with_root b64 (LessThan field value) rv s =
     try_on_path (try_get_path_value rv field s) False (\<lambda>v. less_than_value v value)"
| "try_evaluate_condition_with_root b64 (LessThanEqual field value) rv s =
     try_on_path (try_get_path_value rv field s) False (\<lambda>v. less_than_equal_value v value)"
| "try_evaluate_condition_with_root b64 (GreaterThan field value) rv s =
     try_on_path (try_get_path_value rv field s) False (\<lambda>v. greater_than_value v value)"
| "try_evaluate_condition_with_root b64 (GreaterThanEqual field value) rv s =
     try_on_path (try_get_path_value rv field s) False (\<lambda>v. greater_than_equal_value v value)"
| "try_evaluate_condition_with_root b64 (Equal field value) rv s =
     try_on_path (try_get_path_value rv field s) False (\<lambda>v. dynamodb_attribute_values_equal v value)"
| "try_evaluate_condition_with_root b64 (NotEqual field value) rv s =
     try_on_path (try_get_path_value rv field s) True (\<lambda>v. \<not> dynamodb_attribute_values_equal v value)"
| "try_evaluate_condition_with_root b64 (Between field lower upper) rv s =
     try_on_path (try_get_path_value rv field s) False (\<lambda>v. between_values v lower upper)"
| "try_evaluate_condition_with_root b64 (InValues field values) rv s =
     try_on_path (try_get_path_value rv field s) False
       (\<lambda>v. list_ex (\<lambda>value. dynamodb_attribute_values_equal v value) values)"
| "try_evaluate_condition_with_root b64 (ValueEqual left right) rv s =
     (Inr (dynamodb_attribute_values_equal left right), s)"
| "try_evaluate_condition_with_root b64 (ValueNotEqual left right) rv s =
     (Inr (\<not> dynamodb_attribute_values_equal left right), s)"
| "try_evaluate_condition_with_root b64 (Contains field value) rv s =
     try_on_path (try_get_path_value rv field s) False (\<lambda>v. contains_attribute b64 v value)"
| "try_evaluate_condition_with_root b64 (BeginsWith field prefix) rv s =
     try_on_path (try_get_path_value rv field s) False (\<lambda>v. begins_with_value b64 v prefix)"
| "try_evaluate_condition_with_root b64 (AttributeType field attribute_type) rv s =
     try_on_path (try_get_path_value rv field s) False (\<lambda>v. attribute_type_code v = Some attribute_type)"
| "try_evaluate_condition_with_root b64 (Size field expected) rv s =
     try_on_path (try_get_path_value rv field s) False (\<lambda>v. attribute_size b64 v = Some expected)"
| "try_evaluate_condition_with_root b64 (SizeCompare field operator expected) rv s =
     try_on_path (try_get_path_value rv field s) False
       (\<lambda>v. case attribute_size b64 v of None \<Rightarrow> False | Some actual \<Rightarrow> size_compare operator actual expected)"
| "try_evaluate_condition_with_root b64 (CAnd conditions) rv s = try_evaluate_all b64 conditions rv s"
| "try_evaluate_condition_with_root b64 (COr conditions) rv s = try_evaluate_any b64 conditions rv s"
| "try_evaluate_condition_with_root b64 (CNot c) rv s =
     (case try_evaluate_condition_with_root b64 c rv s of
        (Inl e, s') \<Rightarrow> (Inl e, s') | (Inr b, s') \<Rightarrow> (Inr (\<not> b), s'))"
| "try_evaluate_all b64 [] rv s = (Inr True, s)"
| "try_evaluate_all b64 (c # cs) rv s =
     (case try_evaluate_condition_with_root b64 c rv s of
        (Inl e, s') \<Rightarrow> (Inl e, s')
      | (Inr b, s') \<Rightarrow> if \<not> b then (Inr False, s') else try_evaluate_all b64 cs rv s')"
| "try_evaluate_any b64 [] rv s = (Inr False, s)"
| "try_evaluate_any b64 (c # cs) rv s =
     (case try_evaluate_condition_with_root b64 c rv s of
        (Inl e, s') \<Rightarrow> (Inl e, s')
      | (Inr b, s') \<Rightarrow> if b then (Inr True, s') else try_evaluate_any b64 cs rv s')"

end
