(* ===== verification/Condition_Roots.thy ===== *)
theory Condition_Roots
  imports Condition_Eval
begin

text \<open>
  Evaluation with a cache of root attributes, the detection and collection of the roots of a
  condition, and the lemmas that relate the evaluators. The locale \<open>root_source\<close> is the contract
  of a resolver of root attributes; it is interpreted on a direct resolver and on the cache in
  front of one.
\<close>

section \<open>Evaluation with cached roots\<close>

type_synonym root_cache = "(string \<times> attribute_value option) list"

text \<open>The cache, with the state of the resolver beside it.\<close>

datatype 's cached = Cached (cached_roots: root_cache) (resolver_state: 's)

definition cached_root_value :: "('s, 'e) resolver \<Rightarrow> ('s cached, 'e) resolver" where
  "cached_root_value root_value name st =
     (case find (\<lambda>(cached, _). cached = name) (cached_roots st) of
        Some (_, value) \<Rightarrow> (Inr value, st)
      | None \<Rightarrow> (case root_value name (resolver_state st) of
            (Inl e, s') \<Rightarrow> (Inl e, Cached (cached_roots st) s')
          | (Inr value, s') \<Rightarrow> (Inr value, Cached (cached_roots st @ [(name, value)]) s')))"

definition try_get_path_value_cached
    :: "('s, 'e) resolver \<Rightarrow> string \<Rightarrow> 's cached \<Rightarrow> ('e + attribute_value option) \<times> 's cached" where
  "try_get_path_value_cached root_value path st =
     (case cached_root_value root_value (root_field path) st of
        (Inl e, st') \<Rightarrow> (Inl e, st')
      | (Inr None, st') \<Rightarrow> (Inr None, st')
      | (Inr (Some current), st') \<Rightarrow> (Inr (walk_path (path_rest path) current), st'))"

fun try_evaluate_condition_with_cached_roots_inner
    :: "base64 \<Rightarrow> condition \<Rightarrow> ('s, 'e) resolver \<Rightarrow> 's cached \<Rightarrow> ('e + bool) \<times> 's cached"
  and cached_evaluate_all
    :: "base64 \<Rightarrow> condition list \<Rightarrow> ('s, 'e) resolver \<Rightarrow> 's cached \<Rightarrow> ('e + bool) \<times> 's cached"
  and cached_evaluate_any
    :: "base64 \<Rightarrow> condition list \<Rightarrow> ('s, 'e) resolver \<Rightarrow> 's cached \<Rightarrow> ('e + bool) \<times> 's cached" where
  "try_evaluate_condition_with_cached_roots_inner b64 (Exists field) rv st =
     try_on_path (try_get_path_value_cached rv field st) False (\<lambda>_. True)"
| "try_evaluate_condition_with_cached_roots_inner b64 (NotExists field) rv st =
     try_on_path (try_get_path_value_cached rv field st) True (\<lambda>_. False)"
| "try_evaluate_condition_with_cached_roots_inner b64 (LessThan field value) rv st =
     try_on_path (try_get_path_value_cached rv field st) False (\<lambda>v. less_than_value v value)"
| "try_evaluate_condition_with_cached_roots_inner b64 (LessThanEqual field value) rv st =
     try_on_path (try_get_path_value_cached rv field st) False (\<lambda>v. less_than_equal_value v value)"
| "try_evaluate_condition_with_cached_roots_inner b64 (GreaterThan field value) rv st =
     try_on_path (try_get_path_value_cached rv field st) False (\<lambda>v. greater_than_value v value)"
| "try_evaluate_condition_with_cached_roots_inner b64 (GreaterThanEqual field value) rv st =
     try_on_path (try_get_path_value_cached rv field st) False (\<lambda>v. greater_than_equal_value v value)"
| "try_evaluate_condition_with_cached_roots_inner b64 (Equal field value) rv st =
     try_on_path (try_get_path_value_cached rv field st) False (\<lambda>v. dynamodb_attribute_values_equal v value)"
| "try_evaluate_condition_with_cached_roots_inner b64 (NotEqual field value) rv st =
     try_on_path (try_get_path_value_cached rv field st) True (\<lambda>v. \<not> dynamodb_attribute_values_equal v value)"
| "try_evaluate_condition_with_cached_roots_inner b64 (Between field lower upper) rv st =
     try_on_path (try_get_path_value_cached rv field st) False (\<lambda>v. between_values v lower upper)"
| "try_evaluate_condition_with_cached_roots_inner b64 (InValues field values) rv st =
     try_on_path (try_get_path_value_cached rv field st) False
       (\<lambda>v. list_ex (\<lambda>value. dynamodb_attribute_values_equal v value) values)"
| "try_evaluate_condition_with_cached_roots_inner b64 (ValueEqual left right) rv st =
     (Inr (dynamodb_attribute_values_equal left right), st)"
| "try_evaluate_condition_with_cached_roots_inner b64 (ValueNotEqual left right) rv st =
     (Inr (\<not> dynamodb_attribute_values_equal left right), st)"
| "try_evaluate_condition_with_cached_roots_inner b64 (Contains field value) rv st =
     try_on_path (try_get_path_value_cached rv field st) False (\<lambda>v. contains_attribute b64 v value)"
| "try_evaluate_condition_with_cached_roots_inner b64 (BeginsWith field prefix) rv st =
     try_on_path (try_get_path_value_cached rv field st) False (\<lambda>v. begins_with_value b64 v prefix)"
| "try_evaluate_condition_with_cached_roots_inner b64 (AttributeType field attribute_type) rv st =
     try_on_path (try_get_path_value_cached rv field st) False (\<lambda>v. attribute_type_code v = Some attribute_type)"
| "try_evaluate_condition_with_cached_roots_inner b64 (Size field expected) rv st =
     try_on_path (try_get_path_value_cached rv field st) False (\<lambda>v. attribute_size b64 v = Some expected)"
| "try_evaluate_condition_with_cached_roots_inner b64 (SizeCompare field operator expected) rv st =
     try_on_path (try_get_path_value_cached rv field st) False
       (\<lambda>v. case attribute_size b64 v of None \<Rightarrow> False | Some actual \<Rightarrow> size_compare operator actual expected)"
| "try_evaluate_condition_with_cached_roots_inner b64 (CAnd conditions) rv st = cached_evaluate_all b64 conditions rv st"
| "try_evaluate_condition_with_cached_roots_inner b64 (COr conditions) rv st = cached_evaluate_any b64 conditions rv st"
| "try_evaluate_condition_with_cached_roots_inner b64 (CNot c) rv st =
     (case try_evaluate_condition_with_cached_roots_inner b64 c rv st of
        (Inl e, st') \<Rightarrow> (Inl e, st') | (Inr b, st') \<Rightarrow> (Inr (\<not> b), st'))"
| "cached_evaluate_all b64 [] rv st = (Inr True, st)"
| "cached_evaluate_all b64 (c # cs) rv st =
     (case try_evaluate_condition_with_cached_roots_inner b64 c rv st of
        (Inl e, st') \<Rightarrow> (Inl e, st')
      | (Inr b, st') \<Rightarrow> if \<not> b then (Inr False, st') else cached_evaluate_all b64 cs rv st')"
| "cached_evaluate_any b64 [] rv st = (Inr False, st)"
| "cached_evaluate_any b64 (c # cs) rv st =
     (case try_evaluate_condition_with_cached_roots_inner b64 c rv st of
        (Inl e, st') \<Rightarrow> (Inl e, st')
      | (Inr b, st') \<Rightarrow> if b then (Inr True, st') else cached_evaluate_any b64 cs rv st')"

definition try_evaluate_condition_with_cached_roots
    :: "base64 \<Rightarrow> condition \<Rightarrow> ('s, 'e) resolver \<Rightarrow> 's \<Rightarrow> ('e + bool) \<times> 's" where
  "try_evaluate_condition_with_cached_roots b64 condition root_value s =
     (case try_evaluate_condition_with_cached_roots_inner b64 condition root_value (Cached [] s) of
        (r, st') \<Rightarrow> (r, resolver_state st'))"

section \<open>Roots of a condition\<close>

text \<open>
  The roots seen so far fill an array of eight slots in order, so that the first \<open>root_count\<close>
  slots are a list. \<open>any\<close> stops at the first condition that reports a repetition.
\<close>

definition record_root_field :: "string \<Rightarrow> string list \<Rightarrow> bool \<times> string list" where
  "record_root_field name roots =
     (if name \<in> set roots then (True, roots)
      else if 8 \<le> length roots then (True, roots)
      else (False, roots @ [name]))"

definition condition_leaf :: "condition \<Rightarrow> string option" where
  "condition_leaf c =
     (case c of
        Exists field \<Rightarrow> Some field | NotExists field \<Rightarrow> Some field
      | LessThan field _ \<Rightarrow> Some field | LessThanEqual field _ \<Rightarrow> Some field
      | GreaterThan field _ \<Rightarrow> Some field | GreaterThanEqual field _ \<Rightarrow> Some field
      | Equal field _ \<Rightarrow> Some field | NotEqual field _ \<Rightarrow> Some field
      | Between field _ _ \<Rightarrow> Some field | InValues field _ \<Rightarrow> Some field
      | Contains field _ \<Rightarrow> Some field | BeginsWith field _ \<Rightarrow> Some field
      | AttributeType field _ \<Rightarrow> Some field | Size field _ \<Rightarrow> Some field
      | SizeCompare field _ _ \<Rightarrow> Some field
      | _ \<Rightarrow> None)"

fun condition_has_repeated_root_field_inner :: "condition \<Rightarrow> string list \<Rightarrow> bool \<times> string list"
  and any_repeated_root_field :: "condition list \<Rightarrow> string list \<Rightarrow> bool \<times> string list" where
  "condition_has_repeated_root_field_inner (CAnd conditions) roots = any_repeated_root_field conditions roots"
| "condition_has_repeated_root_field_inner (COr conditions) roots = any_repeated_root_field conditions roots"
| "condition_has_repeated_root_field_inner (CNot c) roots = condition_has_repeated_root_field_inner c roots"
| "condition_has_repeated_root_field_inner c roots =
     (case condition_leaf c of
        Some field \<Rightarrow> record_root_field (root_field field) roots
      | None \<Rightarrow> (False, roots))"
| "any_repeated_root_field [] roots = (False, roots)"
| "any_repeated_root_field (c # cs) roots =
     (let (repeated, roots') = condition_has_repeated_root_field_inner c roots in
      if repeated then (True, roots') else any_repeated_root_field cs roots')"

definition condition_has_repeated_root_field :: "condition \<Rightarrow> bool" where
  "condition_has_repeated_root_field condition = fst (condition_has_repeated_root_field_inner condition [])"

fun collect_condition_roots :: "condition \<Rightarrow> string list \<Rightarrow> string list"
  and collect_all_roots :: "condition list \<Rightarrow> string list \<Rightarrow> string list" where
  "collect_condition_roots (CAnd conditions) roots = collect_all_roots conditions roots"
| "collect_condition_roots (COr conditions) roots = collect_all_roots conditions roots"
| "collect_condition_roots (CNot c) roots = collect_condition_roots c roots"
| "collect_condition_roots c roots =
     (case condition_leaf c of
        Some field \<Rightarrow> (if root_field field \<in> set roots then roots else roots @ [root_field field])
      | None \<Rightarrow> roots)"
| "collect_all_roots [] roots = roots"
| "collect_all_roots (c # cs) roots = collect_all_roots cs (collect_condition_roots c roots)"

section \<open>The two walks agree\<close>

lemma walk_path_owned_eq: "walk_path_owned path v = walk_path path v"
proof (induction path v rule: walk_path.induct)
  case (2 c rest current)
  have d: "(case drop i xs of [] \<Rightarrow> None | v # _ \<Rightarrow> f v) = (if i < length xs then f (xs ! i) else None)"
    for i :: nat and xs :: "attribute_value list" and f :: "attribute_value \<Rightarrow> attribute_value option"
    by (auto simp: Cons_nth_drop_Suc [symmetric])
  show ?case using 2
    by (auto simp: d vec_map.remove_value split: attribute_value.splits option.splits)
qed simp

section \<open>The contract of a root resolver\<close>

text \<open>
  A resolver answers by name: whatever its state, it gives the answer of a fixed function of the
  name. Then the outcome of an evaluation, errors included, is a function of the condition.
\<close>

abbreviation pure_resolver :: "(string \<Rightarrow> 'e + attribute_value option) \<Rightarrow> (unit, 'e) resolver" where
  "pure_resolver r \<equiv> \<lambda>name u. (r name, u)"

locale root_source =
  fixes src :: "('s, 'e) resolver"
    and r :: "string \<Rightarrow> 'e + attribute_value option"
    and ok :: "'s \<Rightarrow> bool"
  assumes answers: "ok s \<Longrightarrow> fst (src name s) = r name"
    and stays: "ok s \<Longrightarrow> ok (snd (src name s))"
begin

lemma path_answers:
  assumes "ok s"
  shows "fst (try_get_path_value src path s) = fst (try_get_path_value (pure_resolver r) path ())"
    "ok (snd (try_get_path_value src path s))"
  using answers [OF assms, of "root_field path"] stays [OF assms, of "root_field path"]
  by (auto simp: try_get_path_value_def split: prod.splits sum.splits option.splits)

lemma leaf_answers:
  assumes "ok s"
  shows "fst (try_on_path (try_get_path_value src path s) d t)
      = fst (try_on_path (try_get_path_value (pure_resolver r) path ()) d t)
    \<and> ok (snd (try_on_path (try_get_path_value src path s) d t))"
  using path_answers [OF assms, of path] by (auto simp: try_on_path_def split: prod.splits sum.splits)

lemma evaluation_answers:
  "\<And>s. ok s \<Longrightarrow> fst (try_evaluate_condition_with_root b64 c src s)
      = fst (try_evaluate_condition_with_root b64 c (pure_resolver r) ())
    \<and> ok (snd (try_evaluate_condition_with_root b64 c src s))"
proof (induction c)
  case (CAnd cs)
  have "ok s \<Longrightarrow> fst (try_evaluate_all b64 cs src s) = fst (try_evaluate_all b64 cs (pure_resolver r) ())
    \<and> ok (snd (try_evaluate_all b64 cs src s))" for s
    using CAnd.IH by (induction cs arbitrary: s) (auto split: prod.splits sum.splits, fastforce+)
  with CAnd show ?case by simp
next
  case (COr cs)
  have "ok s \<Longrightarrow> fst (try_evaluate_any b64 cs src s) = fst (try_evaluate_any b64 cs (pure_resolver r) ())
    \<and> ok (snd (try_evaluate_any b64 cs src s))" for s
    using COr.IH by (induction cs arbitrary: s) (auto split: prod.splits sum.splits, fastforce+)
  with COr show ?case by simp
next
  case (CNot c)
  then show ?case by (fastforce split: prod.splits sum.splits)
qed (simp_all add: leaf_answers)

end

interpretation direct: root_source "\<lambda>name s. (r name, s)" r "\<lambda>_. True"
  for r :: "string \<Rightarrow> 'e + attribute_value option"
  by unfold_locales simp_all

text \<open>The cache in front of such a resolver is such a resolver, as long as it holds its answers.\<close>

definition cache_holds :: "(string \<Rightarrow> 'e + attribute_value option) \<Rightarrow> 's cached \<Rightarrow> bool" where
  "cache_holds r st \<longleftrightarrow> (\<forall>(name, value) \<in> set (cached_roots st). r name = Inr value)"

interpretation caching: root_source "cached_root_value (\<lambda>name s. (r name, s))" r "cache_holds r"
  for r :: "string \<Rightarrow> 'e + attribute_value option"
proof unfold_locales
  fix s :: "'s cached" and name
  assume ok: "cache_holds r s"
  have hit: "r name = Inr v" if "find (\<lambda>(cached, _). cached = name) (cached_roots s) = Some (n, v)" for n v
    using that ok by (auto simp: cache_holds_def find_Some_iff in_set_conv_nth)
  show "fst (cached_root_value (\<lambda>name s. (r name, s)) name s) = r name"
    using hit by (auto simp: cached_root_value_def split: option.splits sum.splits)
  show "cache_holds r (snd (cached_root_value (\<lambda>name s. (r name, s)) name s))"
    using ok by (auto simp: cached_root_value_def cache_holds_def split: option.splits sum.splits)
qed

lemma cached_path_eq: "try_get_path_value_cached rv path st = try_get_path_value (cached_root_value rv) path st"
  by (simp add: try_get_path_value_cached_def try_get_path_value_def walk_path_owned_eq
      split: prod.splits sum.splits option.splits)

lemma cached_inner_eq:
  "try_evaluate_condition_with_cached_roots_inner b64 c rv st
     = try_evaluate_condition_with_root b64 c (cached_root_value rv) st"
proof (induction c arbitrary: st)
  case (CAnd cs)
  have "cached_evaluate_all b64 cs rv st = try_evaluate_all b64 cs (cached_root_value rv) st" for st
    using CAnd.IH by (induction cs arbitrary: st) (auto split: prod.splits sum.splits)
  then show ?case by simp
next
  case (COr cs)
  have "cached_evaluate_any b64 cs rv st = try_evaluate_any b64 cs (cached_root_value rv) st" for st
    using COr.IH by (induction cs arbitrary: st) (auto split: prod.splits sum.splits)
  then show ?case by simp
qed (simp_all add: cached_path_eq)

lemma cache_holds_empty [simp]: "cache_holds r (Cached [] s)"
  by (simp add: cache_holds_def)

lemma cached_roots_outcome:
  "fst (try_evaluate_condition_with_cached_roots b64 c (\<lambda>name s. (r name, s)) s)
     = fst (try_evaluate_condition_with_root b64 c (pure_resolver r) ())"
  using caching.evaluation_answers [of r "Cached [] s" b64 c]
  by (auto simp: try_evaluate_condition_with_cached_roots_def cached_inner_eq split: prod.splits)

lemma pure_path:
  fixes r :: "string \<Rightarrow> 'e + attribute_value option"
  assumes "r = (\<lambda>name. Inr (item name))"
  shows "try_get_path_value (pure_resolver r) path () = (Inr (get_path_value item path), ())"
  using assms by (auto simp: try_get_path_value_def get_path_value_def walk_path_owned_eq split: option.splits)

lemma pure_evaluation:
  fixes r :: "string \<Rightarrow> 'e + attribute_value option"
  assumes r: "r = (\<lambda>name. Inr (item name))"
  shows "try_evaluate_condition_with_root b64 c (pure_resolver r) ()
     = (Inr (evaluate_condition b64 item c), ())"
proof (induction c)
  case (CAnd cs)
  have "try_evaluate_all b64 cs (pure_resolver r) ()
    = (Inr (list_all (evaluate_condition b64 item) cs), ())"
    using CAnd.IH
  proof (induction cs)
    case (Cons a cs)
    have "try_evaluate_condition_with_root b64 a (pure_resolver r) ()
      = (Inr (evaluate_condition b64 item a), ())" by (rule Cons.prems) simp
    then show ?case using Cons.IH Cons.prems by simp
  qed simp
  then show ?case by simp
next
  case (COr cs)
  have "try_evaluate_any b64 cs (pure_resolver r) ()
    = (Inr (list_ex (evaluate_condition b64 item) cs), ())"
    using COr.IH
  proof (induction cs)
    case (Cons a cs)
    have "try_evaluate_condition_with_root b64 a (pure_resolver r) ()
      = (Inr (evaluate_condition b64 item a), ())" by (rule Cons.prems) simp
    then show ?case using Cons.IH Cons.prems by simp
  qed simp
  then show ?case by simp
next
  case (NotExists p) show ?case by (simp add: pure_path [OF r] try_on_path_def on_path_def split: option.splits)
next
  case (Exists p) show ?case by (simp add: pure_path [OF r] try_on_path_def on_path_def split: option.splits)
qed (simp_all add: pure_path [OF r] try_on_path_def)

section \<open>Each root is resolved once\<close>

text \<open>A resolver that also records the names it is asked for.\<close>

definition recording :: "(string \<Rightarrow> 'e + attribute_value option) \<Rightarrow> (string list, 'e) resolver" where
  "recording r name asked = (r name, asked @ [name])"

definition logs_cache :: "string list cached \<Rightarrow> bool" where
  "logs_cache st \<longleftrightarrow> resolver_state st = map fst (cached_roots st) \<and> distinct (resolver_state st)"

lemma find_None_key: "find (\<lambda>(cached, _). cached = name) cache = None \<longleftrightarrow> name \<notin> fst ` set cache"
  by (force simp: find_None_iff)

lemma recording_path:
  assumes "logs_cache st" "try_get_path_value (cached_root_value (recording r)) path st = (out, st')"
  shows "case out of Inr _ \<Rightarrow> logs_cache st' | Inl _ \<Rightarrow> distinct (resolver_state st')"
  using assms find_None_key [of "root_field path" "cached_roots st"]
  by (auto simp: try_get_path_value_def cached_root_value_def recording_def logs_cache_def
      split: option.splits sum.splits prod.splits)

lemma recording_leaf:
  assumes "logs_cache st" "try_on_path (try_get_path_value (cached_root_value (recording r)) path st) d t = (out, st')"
  shows "case out of Inr _ \<Rightarrow> logs_cache st' | Inl _ \<Rightarrow> distinct (resolver_state st')"
proof -
  obtain v st1 where p: "try_get_path_value (cached_root_value (recording r)) path st = (v, st1)" by fastforce
  show ?thesis using recording_path [OF assms(1) p] assms(2)
    by (cases v) (auto simp: p try_on_path_def)
qed

definition once :: "('e + 'a) \<times> string list cached \<Rightarrow> bool" where
  "once x \<longleftrightarrow> (case fst x of Inr _ \<Rightarrow> logs_cache (snd x) | Inl _ \<Rightarrow> distinct (resolver_state (snd x)))"

lemma once_leaf: "logs_cache st \<Longrightarrow>
   once (try_on_path (try_get_path_value (cached_root_value (recording r)) path st) d t)"
  using recording_leaf [of st r path d t] by (fastforce simp: once_def)

lemma once_simps [simp]: "once (Inr x, st) \<longleftrightarrow> logs_cache st" "once (Inl e, st) \<longleftrightarrow> distinct (resolver_state st)"
  by (simp_all add: once_def)

lemma recording_evaluation:
  "logs_cache st \<Longrightarrow> once (try_evaluate_condition_with_root b64 c (cached_root_value (recording r)) st)"
proof (induction c arbitrary: st)
  case (CAnd cs)
  have "logs_cache st \<Longrightarrow> once (try_evaluate_all b64 cs (cached_root_value (recording r)) st)" for st
    using CAnd.IH
  proof (induction cs arbitrary: st)
    case (Cons a cs)
    have "once (try_evaluate_condition_with_root b64 a (cached_root_value (recording r)) st)"
      using Cons.prems by simp
    moreover have "logs_cache st \<Longrightarrow> once (try_evaluate_all b64 cs (cached_root_value (recording r)) st)" for st
      using Cons.IH Cons.prems(2) by simp
    ultimately show ?case by (auto split: prod.splits sum.splits)
  qed simp
  with CAnd.prems show ?case by simp
next
  case (COr cs)
  have "logs_cache st \<Longrightarrow> once (try_evaluate_any b64 cs (cached_root_value (recording r)) st)" for st
    using COr.IH
  proof (induction cs arbitrary: st)
    case (Cons a cs)
    have "once (try_evaluate_condition_with_root b64 a (cached_root_value (recording r)) st)"
      using Cons.prems by simp
    moreover have "logs_cache st \<Longrightarrow> once (try_evaluate_any b64 cs (cached_root_value (recording r)) st)" for st
      using Cons.IH Cons.prems(2) by simp
    ultimately show ?case by (auto split: prod.splits sum.splits)
  qed simp
  with COr.prems show ?case by simp
next
  case (CNot c)
  have "once (try_evaluate_condition_with_root b64 c (cached_root_value (recording r)) st)"
    using CNot by simp
  then show ?case by (auto split: prod.splits sum.splits)
qed (simp_all add: once_leaf)

section \<open>Roots\<close>

definition condition_roots :: "condition \<Rightarrow> string list" where
  "condition_roots c = map root_field (visit_attribute_paths c)"

lemma condition_roots_simps [simp]:
  "condition_roots (CAnd cs) = concat (map condition_roots cs)"
  "condition_roots (COr cs) = concat (map condition_roots cs)"
  "condition_roots (CNot c) = condition_roots c"
  unfolding condition_roots_def by (simp_all add: map_concat comp_def condition_roots_def [abs_def])

definition is_leaf :: "condition \<Rightarrow> bool" where
  "is_leaf c = (case c of CAnd _ \<Rightarrow> False | COr _ \<Rightarrow> False | CNot _ \<Rightarrow> False | _ \<Rightarrow> True)"

lemma leaf_roots:
  assumes "is_leaf c"
  shows "condition_roots c = (case condition_leaf c of Some field \<Rightarrow> [root_field field] | None \<Rightarrow> [])"
  using assms by (cases c) (simp_all add: condition_roots_def condition_leaf_def is_leaf_def)

lemma evaluate_condition_roots:
  "(\<And>name. name \<in> set (condition_roots c) \<Longrightarrow> f name = g name) \<Longrightarrow>
   evaluate_condition b64 f c = evaluate_condition b64 g c"
proof (induction c)
  case (CAnd cs) then show ?case by (auto simp: list_all_iff)
next
  case (COr cs) then show ?case by (auto simp: list_ex_iff)
qed (simp_all add: condition_roots_def get_path_value_def)

lemma any_repeated:
  assumes "\<And>c roots. c \<in> set cs \<Longrightarrow> distinct roots \<Longrightarrow> length roots \<le> 8 \<Longrightarrow>
      (if distinct (roots @ condition_roots c) \<and> length (roots @ condition_roots c) \<le> 8
       then condition_has_repeated_root_field_inner c roots = (False, roots @ condition_roots c)
       else fst (condition_has_repeated_root_field_inner c roots))"
    and "distinct roots" "length roots \<le> 8"
  shows "if distinct (roots @ concat (map condition_roots cs)) \<and> length (roots @ concat (map condition_roots cs)) \<le> 8
       then any_repeated_root_field cs roots = (False, roots @ concat (map condition_roots cs))
       else fst (any_repeated_root_field cs roots)"
  using assms
proof (induction cs arbitrary: roots)
  case (Cons c cs)
  let ?d = "distinct (roots @ condition_roots c) \<and> length (roots @ condition_roots c) \<le> 8"
  have c: "if ?d then condition_has_repeated_root_field_inner c roots = (False, roots @ condition_roots c)
       else fst (condition_has_repeated_root_field_inner c roots)" using Cons.prems by simp
  show ?case
  proof (cases ?d)
    case True
    have "if distinct ((roots @ condition_roots c) @ concat (map condition_roots cs))
        \<and> length ((roots @ condition_roots c) @ concat (map condition_roots cs)) \<le> 8
      then any_repeated_root_field cs (roots @ condition_roots c)
        = (False, (roots @ condition_roots c) @ concat (map condition_roots cs))
      else fst (any_repeated_root_field cs (roots @ condition_roots c))"
      using Cons.IH [of "roots @ condition_roots c"] Cons.prems(1) True by simp
    then show ?thesis using c True by simp
  next
    case False
    then have "fst (condition_has_repeated_root_field_inner c roots)" using c by (simp split: if_splits)
    moreover have "\<not> (distinct (roots @ concat (map condition_roots (c # cs)))
        \<and> length (roots @ concat (map condition_roots (c # cs))) \<le> 8)"
      using False by auto
    ultimately show ?thesis by (auto split: prod.splits)
  qed
qed simp

lemma repeated_leaf:
  assumes "distinct roots" "length roots \<le> 8" "is_leaf c"
  shows "if distinct (roots @ condition_roots c) \<and> length (roots @ condition_roots c) \<le> 8
       then condition_has_repeated_root_field_inner c roots = (False, roots @ condition_roots c)
       else fst (condition_has_repeated_root_field_inner c roots)"
proof -
  have "condition_has_repeated_root_field_inner c roots =
    (case condition_leaf c of Some field \<Rightarrow> record_root_field (root_field field) roots | None \<Rightarrow> (False, roots))"
    using assms(3) by (cases c) (simp_all add: is_leaf_def)
  then show ?thesis using assms(1,2) leaf_roots [OF assms(3)]
    by (auto simp: record_root_field_def split: option.splits)
qed

lemma repeated_inner:
  "distinct roots \<Longrightarrow> length roots \<le> 8 \<Longrightarrow>
    (if distinct (roots @ condition_roots c) \<and> length (roots @ condition_roots c) \<le> 8
       then condition_has_repeated_root_field_inner c roots = (False, roots @ condition_roots c)
       else fst (condition_has_repeated_root_field_inner c roots))"
proof (induction c arbitrary: roots)
  case (CAnd cs) show ?case using any_repeated [OF CAnd.IH CAnd.prems] by simp
next
  case (COr cs) show ?case using any_repeated [OF COr.IH COr.prems] by simp
next
  case (CNot c) show ?case using CNot.IH [OF CNot.prems] by simp
qed (rule repeated_leaf; simp add: is_leaf_def)+

lemma collect_all:
  assumes "\<And>c roots. c \<in> set cs \<Longrightarrow> set (collect_condition_roots c roots) = set roots \<union> set (condition_roots c)
      \<and> (distinct roots \<longrightarrow> distinct (collect_condition_roots c roots))"
  shows "set (collect_all_roots cs roots) = set roots \<union> set (concat (map condition_roots cs))
      \<and> (distinct roots \<longrightarrow> distinct (collect_all_roots cs roots))"
  using assms by (induction cs arbitrary: roots) auto

lemma collect_roots:
  "set (collect_condition_roots c roots) = set roots \<union> set (condition_roots c)
      \<and> (distinct roots \<longrightarrow> distinct (collect_condition_roots c roots))"
proof (induction c arbitrary: roots)
  case (CAnd cs) show ?case using collect_all [OF CAnd.IH] by simp
next
  case (COr cs) show ?case using collect_all [OF COr.IH] by simp
next
  case (CNot c) show ?case using CNot.IH by simp
qed (auto simp: condition_leaf_def condition_roots_def)

end
