(* ===== verification/Condition_Wire.thy ===== *)
theory Condition_Wire
  imports Condition_Roots
begin

text \<open>
  Conditions on stored items: the wire layouts and the selection of the attributes a condition
  names, the decoding of the whole item, the evaluators on wire and on indexed items, and the theorems on
  when they agree with evaluation on the whole item.
\<close>

section \<open>Wire items\<close>

text \<open>
  A stored item: one JSON object, or key attributes beside a JSON object of the other attributes.
  The JSON reader of serde is the parameter \<open>json\<close>. An entry that is skipped is not decoded.
\<close>

record wire_item_key_attributes =
  hash_key_name :: string
  hash_key :: attribute_value
  sort_key_name :: "string option"
  sort_key :: "attribute_value option"

datatype wire_item =
    DynamoJson string
  | LocalSplit wire_item_key_attributes "wire_item_key_attributes option" "string option"

fun position_of :: "'a \<Rightarrow> 'a list \<Rightarrow> nat option" where
  "position_of x [] = None"
| "position_of x (y # ys) = (if y = x then Some 0 else map_option Suc (position_of x ys))"

fun visit_attribute_values :: "string list \<Rightarrow> (string \<times> ('e + attribute_value)) list
    \<Rightarrow> attribute_value option list \<Rightarrow> 'e + attribute_value option list" where
  "visit_attribute_values requested [] values = Inr values"
| "visit_attribute_values requested ((key, value) # entries) values =
     (case position_of key requested of
        Some index \<Rightarrow> (case value of
            Inl e \<Rightarrow> Inl e
          | Inr v \<Rightarrow> visit_attribute_values requested entries (values[index := Some v]))
      | None \<Rightarrow> visit_attribute_values requested entries values)"

definition parse_dynamo_attribute_values :: "(string \<Rightarrow> 'e json_object) \<Rightarrow> string \<Rightarrow> string list
    \<Rightarrow> 'e + attribute_value option list" where
  "parse_dynamo_attribute_values json bytes requested =
     (case json bytes of (entries, end_error) \<Rightarrow>
        ebind (visit_attribute_values requested entries (replicate (length requested) None)) (\<lambda>values.
          case end_error of Some e \<Rightarrow> Inl e | None \<Rightarrow> Inr values))"

definition is_ascii_whitespace :: "char \<Rightarrow> bool" where
  "is_ascii_whitespace c \<longleftrightarrow> (of_char c :: nat) \<in> {9, 10, 12, 13, 32}"

definition trim_ascii_whitespace :: "string \<Rightarrow> string" where
  "trim_ascii_whitespace s =
     rev (dropWhile is_ascii_whitespace (rev (dropWhile is_ascii_whitespace s)))"

definition blob_is_empty_json_object :: "string \<Rightarrow> bool" where
  "blob_is_empty_json_object blob \<longleftrightarrow> trim_ascii_whitespace blob = ''{}''"

definition attribute_from_key_attributes :: "wire_item_key_attributes \<Rightarrow> string \<Rightarrow> attribute_value option" where
  "attribute_from_key_attributes keys field =
     (if hash_key_name keys = field then Some (hash_key keys)
      else if sort_key_name keys = Some field then sort_key keys
      else None)"

definition key_attribute :: "wire_item_key_attributes \<Rightarrow> wire_item_key_attributes option \<Rightarrow> string
    \<Rightarrow> attribute_value option" where
  "key_attribute primary secondary field =
     (case attribute_from_key_attributes primary field of
        Some v \<Rightarrow> Some v
      | None \<Rightarrow> (case secondary of
            Some keys \<Rightarrow> attribute_from_key_attributes keys field
          | None \<Rightarrow> None))"

definition select_attribute_values :: "(string \<Rightarrow> 'e json_object) \<Rightarrow> wire_item \<Rightarrow> string list
    \<Rightarrow> 'e + attribute_value option list" where
  "select_attribute_values json item requested =
     (case item of
        DynamoJson data \<Rightarrow> parse_dynamo_attribute_values json data requested
      | LocalSplit primary secondary blob \<Rightarrow>
          ebind (case blob of
              Some b \<Rightarrow> if b \<noteq> [] \<and> \<not> blob_is_empty_json_object b
                then parse_dynamo_attribute_values json b requested
                else Inr (replicate (length requested) None)
            | None \<Rightarrow> Inr (replicate (length requested) None))
          (\<lambda>values. Inr (map (\<lambda>(field, value). case value of
              Some v \<Rightarrow> Some v
            | None \<Rightarrow> key_attribute primary secondary field) (zip requested values))))"

text \<open>The whole item, as it is decoded for a client.\<close>

definition decode_attribute_map :: "(string \<Rightarrow> 'e json_object) \<Rightarrow> string \<Rightarrow> 'e map_error + attribute_map" where
  "decode_attribute_map json data = visit_attribute_map (fst (json data)) (snd (json data)) []"

definition decode_non_key_attributes :: "(string \<Rightarrow> 'e json_object) \<Rightarrow> string option \<Rightarrow> 'e map_error + attribute_map" where
  "decode_non_key_attributes json blob =
     (case blob of
        Some b \<Rightarrow> if b \<noteq> [] \<and> \<not> blob_is_empty_json_object b then decode_attribute_map json b else Inr []
      | None \<Rightarrow> Inr [])"

definition insert_key_attributes :: "attribute_map \<Rightarrow> wire_item_key_attributes \<Rightarrow> attribute_map" where
  "insert_key_attributes attributes keys =
     (let attributes = attribute_map_insert attributes (hash_key_name keys) (hash_key keys) in
      case (sort_key_name keys, sort_key keys) of
        (Some name, Some value) \<Rightarrow> attribute_map_insert attributes name value
      | _ \<Rightarrow> attributes)"

text \<open>\<open>TryFrom<&WireItem>\<close> and \<open>TryFrom<WireItem>\<close> for \<open>AttributeMap\<close>: keys override the blob.\<close>

definition attribute_map_try_from :: "(string \<Rightarrow> 'e json_object) \<Rightarrow> wire_item \<Rightarrow> 'e map_error + attribute_map" where
  "attribute_map_try_from json item =
     (case item of
        DynamoJson data \<Rightarrow> decode_attribute_map json data
      | LocalSplit primary_key secondary_key non_key_attributes_blob \<Rightarrow>
          ebind (decode_non_key_attributes json non_key_attributes_blob) (\<lambda>attributes.
          let attributes = insert_key_attributes attributes primary_key in
          Inr (case secondary_key of Some secondary_key \<Rightarrow> insert_key_attributes attributes secondary_key | None \<Rightarrow> attributes)))"

section \<open>Conditions on stored items\<close>

fun selected_get :: "string list \<Rightarrow> attribute_value option list \<Rightarrow> string \<Rightarrow> attribute_value option" where
  "selected_get (field # requested) (value # values) name =
     (case (if field = name then value else None) of
        Some v \<Rightarrow> Some v
      | None \<Rightarrow> selected_get requested values name)"
| "selected_get _ _ name = None"

definition evaluate_wire_condition :: "base64 \<Rightarrow> (string \<Rightarrow> 'e json_object) \<Rightarrow> wire_item option
    \<Rightarrow> condition \<Rightarrow> 'e + bool" where
  "evaluate_wire_condition b64 json item condition =
     (case item of
        None \<Rightarrow> Inr (evaluate_condition b64 (selected_get [] []) condition)
      | Some item \<Rightarrow>
          let requested = collect_condition_roots condition [] in
          ebind (select_attribute_values json item requested) (\<lambda>values.
            Inr (evaluate_condition b64 (selected_get requested values) condition)))"

definition evaluate_condition_bytes :: "base64 \<Rightarrow> (string \<Rightarrow> 'e json_object) \<Rightarrow> (string \<Rightarrow> string option)
    \<Rightarrow> string option \<Rightarrow> condition \<Rightarrow> bool" where
  "evaluate_condition_bytes b64 json decompress item condition =
     (let item = (case item of
          Some data \<Rightarrow> (case decompress data of Some d \<Rightarrow> Some (DynamoJson d) | None \<Rightarrow> None)
        | None \<Rightarrow> None)
      in case evaluate_wire_condition b64 json item condition of Inr b \<Rightarrow> b | Inl _ \<Rightarrow> False)"

text \<open>An indexed item answers for one attribute at a time (\<open>IndexedWireItem::resolve_attribute\<close>).\<close>

definition evaluate_indexed_wire_condition :: "base64 \<Rightarrow> (string \<Rightarrow> 'e + attribute_value option) option
    \<Rightarrow> condition \<Rightarrow> 'e + bool" where
  "evaluate_indexed_wire_condition b64 item condition =
     (let root_value = (\<lambda>field s. (case item of Some resolve \<Rightarrow> resolve field | None \<Rightarrow> Inr None, s)) in
      if condition_has_repeated_root_field condition
      then fst (try_evaluate_condition_with_cached_roots b64 condition root_value ())
      else fst (try_evaluate_condition_with_root b64 condition root_value ()))"

section \<open>What the selection of attributes reads\<close>

definition json_lookup :: "(string \<times> ('e + attribute_value)) list \<Rightarrow> string \<Rightarrow> attribute_value option" where
  "json_lookup entries name = (case map_of (rev entries) name of Some (Inr v) \<Rightarrow> Some v | _ \<Rightarrow> None)"

definition blob_lookup :: "(string \<Rightarrow> 'e json_object) \<Rightarrow> string option \<Rightarrow> string \<Rightarrow> attribute_value option" where
  "blob_lookup json blob name =
     (case blob of
        Some b \<Rightarrow> if b \<noteq> [] \<and> \<not> blob_is_empty_json_object b then json_lookup (fst (json b)) name else None
      | None \<Rightarrow> None)"

fun wire_lookup :: "(string \<Rightarrow> 'e json_object) \<Rightarrow> wire_item \<Rightarrow> string \<Rightarrow> attribute_value option" where
  "wire_lookup json (DynamoJson data) name = json_lookup (fst (json data)) name"
| "wire_lookup json (LocalSplit primary secondary blob) name =
     (case blob_lookup json blob name of
        Some v \<Rightarrow> Some v
      | None \<Rightarrow> key_attribute primary secondary name)"

definition readable :: "(string \<Rightarrow> 'e json_object) \<Rightarrow> string set \<Rightarrow> string \<Rightarrow> bool" where
  "readable json names data \<longleftrightarrow> snd (json data) = None
     \<and> (\<forall>(key, value) \<in> set (fst (json data)). key \<in> names \<longrightarrow> isl value = False)"

definition readable_item :: "(string \<Rightarrow> 'e json_object) \<Rightarrow> string set \<Rightarrow> wire_item \<Rightarrow> bool" where
  "readable_item json names item =
     (case item of
        DynamoJson data \<Rightarrow> readable json names data
      | LocalSplit _ _ (Some b) \<Rightarrow> b \<noteq> [] \<and> \<not> blob_is_empty_json_object b \<longrightarrow> readable json names b
      | LocalSplit _ _ None \<Rightarrow> True)"

text \<open>
  The entries that a stored item holds, in the order in which the decoder inserts them, and the names under
  which it holds one value only.
\<close>

definition key_entries :: "wire_item_key_attributes \<Rightarrow> (string \<times> attribute_value) list" where
  "key_entries keys = (hash_key_name keys, hash_key keys) #
     (case (sort_key_name keys, sort_key keys) of (Some name, Some v) \<Rightarrow> [(name, v)] | _ \<Rightarrow> [])"

definition object_entries :: "'e json_object \<Rightarrow> (string \<times> attribute_value) list" where
  "object_entries obj = concat (map (\<lambda>(k, x). case x of Inr v \<Rightarrow> [(k, v)] | Inl _ \<Rightarrow> []) (fst obj))"

fun item_entries :: "(string \<Rightarrow> 'e json_object) \<Rightarrow> wire_item \<Rightarrow> (string \<times> attribute_value) list" where
  "item_entries json (DynamoJson data) = object_entries (json data)"
| "item_entries json (LocalSplit primary secondary blob) =
     (case blob of Some b \<Rightarrow> if b \<noteq> [] \<and> \<not> blob_is_empty_json_object b then object_entries (json b) else [] | None \<Rightarrow> [])
     @ key_entries primary @ (case secondary of Some keys \<Rightarrow> key_entries keys | None \<Rightarrow> [])"

definition one_value :: "(string \<times> attribute_value) list \<Rightarrow> string \<Rightarrow> bool" where
  "one_value entries name \<longleftrightarrow> (\<forall>v w. (name, v) \<in> set entries \<and> (name, w) \<in> set entries \<longrightarrow> v = w)"

text \<open>A lookup that finds what the entries hold: some value of the name, and none only when there is none.\<close>

definition finds :: "(string \<times> attribute_value) list \<Rightarrow> string \<Rightarrow> attribute_value option \<Rightarrow> bool" where
  "finds entries name r \<longleftrightarrow> (case r of Some v \<Rightarrow> (name, v) \<in> set entries | None \<Rightarrow> \<forall>v. (name, v) \<notin> set entries)"

lemma position_of_Some: "position_of x xs = Some i \<Longrightarrow> i < length xs \<and> xs ! i = x"
  by (induction xs arbitrary: i) (auto split: if_splits)

lemma position_of_None: "position_of x xs = None \<longleftrightarrow> x \<notin> set xs"
  by (induction xs) auto

lemma json_lookup_Cons:
  "json_lookup ((k, x) # es) n = (case json_lookup es n of
     Some v \<Rightarrow> Some v
   | None \<Rightarrow> if k = n \<and> map_of (rev es) n = None then (case x of Inr v \<Rightarrow> Some v | Inl _ \<Rightarrow> None) else None)"
  by (auto simp: json_lookup_def map_add_def split: option.splits sum.splits)

lemma visit_values:
  assumes "distinct requested" "length vals = length requested"
    "\<forall>(key, value) \<in> set es. key \<in> set requested \<longrightarrow> isl value = False"
  shows "visit_attribute_values requested es vals
    = Inr (map (\<lambda>(f, v). case json_lookup es f of Some a \<Rightarrow> Some a | None \<Rightarrow> v) (zip requested vals))"
  using assms
proof (induction es arbitrary: vals)
  case Nil
  then show ?case by (simp add: json_lookup_def map_snd_zip split_def)
next
  case (Cons e es)
  obtain k x where e: "e = (k, x)" by (cases e)
  note IH = Cons.IH [OF Cons.prems(1)]
  show ?case
  proof (cases "position_of k requested")
    case None
    then have "k \<notin> set requested" by (simp add: position_of_None)
    then have "json_lookup (e # es) f = json_lookup es f" if "f \<in> set requested" for f
      using that by (auto simp: e json_lookup_Cons split: option.splits)
    then have "map (\<lambda>(f, v). case json_lookup (e # es) f of Some a \<Rightarrow> Some a | None \<Rightarrow> v) (zip requested vals)
      = map (\<lambda>(f, v). case json_lookup es f of Some a \<Rightarrow> Some a | None \<Rightarrow> v) (zip requested vals)"
      by (intro map_cong) (auto dest: set_zip_leftD)
    then show ?thesis using IH [of vals] Cons.prems None by (simp add: e)
  next
    case (Some i)
    note i = position_of_Some [OF Some]
    have "isl x = False" using Cons.prems(3) i by (auto simp: e)
    then obtain a where a: "x = Inr a" by (cases x) auto
    have mo: "json_lookup es f = None \<Longrightarrow> f \<in> set requested \<Longrightarrow> map_of (rev es) f = None" for f
      using Cons.prems(3) by (fastforce simp: json_lookup_def e dest: map_of_SomeD split: option.splits sum.splits)
    have "map (\<lambda>(f, v). case json_lookup es f of Some a \<Rightarrow> Some a | None \<Rightarrow> v) (zip requested (vals[i := Some a]))
      = map (\<lambda>(f, v). case json_lookup (e # es) f of Some a \<Rightarrow> Some a | None \<Rightarrow> v) (zip requested vals)"
      using Cons.prems i mo
      by (intro nth_equalityI)
        (auto simp: e a json_lookup_Cons nth_list_update nth_eq_iff_index_eq split: option.splits)
    then show ?thesis using IH [of "vals[i := Some a]"] Cons.prems Some by (simp add: e a)
  qed
qed

lemma parse_values:
  assumes "distinct requested" "readable json (set requested) data"
  shows "parse_dynamo_attribute_values json data requested = Inr (map (json_lookup (fst (json data))) requested)"
proof -
  have "map (\<lambda>(f, v). case json_lookup es f of Some a \<Rightarrow> Some a | None \<Rightarrow> v) (zip requested (replicate (length requested) None))
    = map (json_lookup es) requested" for es :: "(string \<times> ('a + attribute_value)) list"
    by (intro nth_equalityI) (auto split: option.splits)
  then show ?thesis using assms visit_values [OF assms(1), of "replicate (length requested) None" "fst (json data)"]
    by (auto simp: parse_dynamo_attribute_values_def readable_def split: prod.splits)
qed

lemma select_values:
  assumes "distinct requested" "readable_item json (set requested) item"
  shows "select_attribute_values json item requested = Inr (map (wire_lookup json item) requested)"
proof (cases item)
  case (DynamoJson data)
  then show ?thesis using parse_values [OF assms(1), of json data] assms(2)
    by (auto simp: select_attribute_values_def readable_item_def)
next
  case (LocalSplit primary secondary blob)
  have m: "map (\<lambda>(f, v). case v of Some v \<Rightarrow> Some v | None \<Rightarrow> key_attribute primary secondary f) (zip requested (map g requested))
    = map (\<lambda>f. case g f of Some v \<Rightarrow> Some v | None \<Rightarrow> key_attribute primary secondary f) requested" for g
    by (intro nth_equalityI) auto
  have none: "replicate (length requested) None = map (\<lambda>f. None) requested" by (simp add: map_replicate_const)
  have "(case blob of
      Some b \<Rightarrow> if b \<noteq> [] \<and> \<not> blob_is_empty_json_object b
        then parse_dynamo_attribute_values json b requested
        else Inr (replicate (length requested) None)
    | None \<Rightarrow> Inr (replicate (length requested) None)) = Inr (map (blob_lookup json blob) requested)"
  proof (cases blob)
    case None then show ?thesis by (simp add: none blob_lookup_def)
  next
    case (Some b)
    then show ?thesis using parse_values [OF assms(1), of json b] assms(2)
      by (auto simp: none blob_lookup_def readable_item_def LocalSplit)
  qed
  then show ?thesis by (simp add: select_attribute_values_def LocalSplit m)
qed

lemma selected_get_map:
  "selected_get requested (map f requested) name = (if name \<in> set requested then f name else None)"
  by (induction requested) (auto split: option.splits)

lemma pure_roots:
  fixes r r' :: "string \<Rightarrow> 'e + attribute_value option"
  shows "(\<And>name. name \<in> set (condition_roots c) \<Longrightarrow> r name = r' name) \<Longrightarrow>
    try_evaluate_condition_with_root b64 c (pure_resolver r) ()
      = try_evaluate_condition_with_root b64 c (pure_resolver r') ()"
proof (induction c)
  case (CAnd cs)
  have "try_evaluate_all b64 cs (pure_resolver r) () = try_evaluate_all b64 cs (pure_resolver r') ()"
    using CAnd by (induction cs) (auto split: prod.splits sum.splits)
  then show ?case by simp
next
  case (COr cs)
  have "try_evaluate_any b64 cs (pure_resolver r) () = try_evaluate_any b64 cs (pure_resolver r') ()"
    using COr by (induction cs) (auto split: prod.splits sum.splits)
  then show ?case by simp
qed (simp_all add: condition_roots_def try_get_path_value_def)

lemma finds_unique: "one_value entries name \<Longrightarrow> finds entries name r \<Longrightarrow> finds entries name r' \<Longrightarrow> r = r'"
  by (auto simp: one_value_def finds_def split: option.splits)

lemma finds_insert:
  "finds entries name (attribute_map_get m name) \<Longrightarrow> finds (entries @ [(k, v)]) name (attribute_map_get (attribute_map_insert m k v) name)"
  by (auto simp: finds_def attr_map.get_insert split: option.splits)

lemma finds_keys:
  assumes "finds entries name (attribute_map_get m name)"
  shows "finds (entries @ key_entries keys) name (attribute_map_get (insert_key_attributes m keys) name)"
  using finds_insert [OF assms, of "hash_key_name keys" "hash_key keys"]
    finds_insert [OF finds_insert [OF assms, of "hash_key_name keys" "hash_key keys"]]
  by (auto simp: key_entries_def insert_key_attributes_def Let_def split: option.splits)

lemma decoded_lookup:
  assumes "keys_distinct m" "es = decoded m"
  shows "json_lookup es name = attribute_map_get m name"
proof -
  have "map_of (rev es) = map_of es"
    using assms by (intro map_of_inject_set [THEN iffD2]) (simp_all add: rev_map [symmetric] comp_def split_def)
  then have "map_of (rev es) name = map_option Inr (map_of m name)" by (simp add: assms(2) map_of_map)
  then show ?thesis
    by (simp add: json_lookup_def attribute_map_get_vec vec_map_get_map_of split: option.splits)
qed

lemma decode_ok:
  assumes "decode_attribute_map json data = Inr m"
  shows "fst (json data) = decoded m" "object_entries (json data) = m" "keys_distinct m"
    "readable json names data" "json_lookup (fst (json data)) name = attribute_map_get m name"
proof -
  have d: "snd (json data) = None" "fst (json data) = decoded m" "keys_distinct m"
    using assms visit_attribute_map_ok [of "fst (json data)"] by (auto simp: decode_attribute_map_def)
  then show "fst (json data) = decoded m" "keys_distinct m" by simp_all
  show "object_entries (json data) = m" unfolding object_entries_def d(2) by (induction m) auto
  show "readable json names data" using d by (auto simp: readable_def)
  show "json_lookup (fst (json data)) name = attribute_map_get m name" by (rule decoded_lookup [OF d(3,2)])
qed

lemma finds_map: "finds m name (attribute_map_get m name)"
  by (auto simp: finds_def attribute_map_get_vec vec_map_get_map_of map_of_eq_None_iff image_iff split: option.splits dest: map_of_SomeD)

lemma finds_key_attribute:
  "finds (key_entries keys) name (attribute_from_key_attributes keys name)"
  by (auto simp: finds_def key_entries_def attribute_from_key_attributes_def split: option.splits)

lemma finds_or:
  "finds e1 name r1 \<Longrightarrow> finds e2 name r2 \<Longrightarrow> finds (e1 @ e2) name (case r1 of Some v \<Rightarrow> Some v | None \<Rightarrow> r2)"
  by (auto simp: finds_def split: option.splits)

lemma finds_key:
  "finds (key_entries primary @ (case secondary of Some keys \<Rightarrow> key_entries keys | None \<Rightarrow> [])) name (key_attribute primary secondary name)"
  unfolding key_attribute_def
  by (rule finds_or [OF finds_key_attribute], cases secondary) (simp_all add: finds_key_attribute, simp add: finds_def)

lemma decode_blob_ok:
  assumes "decode_non_key_attributes json blob = Inr m"
  shows "blob_lookup json blob name = attribute_map_get m name"
    "(case blob of Some b \<Rightarrow> if b \<noteq> [] \<and> \<not> blob_is_empty_json_object b then object_entries (json b) else [] | None \<Rightarrow> []) = m"
    "blob = Some b \<Longrightarrow> b \<noteq> [] \<Longrightarrow> \<not> blob_is_empty_json_object b \<Longrightarrow> readable json names b"
  using assms decode_ok [of json "the blob" m]
  by (auto simp: decode_non_key_attributes_def blob_lookup_def attribute_map_get_def split: option.splits if_splits)

lemma finds_wire_lookup:
  assumes "attribute_map_try_from json item = Inr attributes"
  shows "finds (item_entries json item) name (wire_lookup json item name)
    \<and> finds (item_entries json item) name (attribute_map_get attributes name) \<and> readable_item json names item"
proof (cases item)
  case (DynamoJson data)
  with assms have "decode_attribute_map json data = Inr attributes" by (simp add: attribute_map_try_from_def)
  from decode_ok [OF this] finds_map DynamoJson show ?thesis by (simp add: readable_item_def)
next
  case (LocalSplit primary secondary blob)
  obtain m where m: "decode_non_key_attributes json blob = Inr m"
    "attributes = (case secondary of Some s \<Rightarrow> insert_key_attributes (insert_key_attributes m primary) s
      | None \<Rightarrow> insert_key_attributes m primary)"
    using assms LocalSplit by (auto simp: attribute_map_try_from_def result_simps Let_def)
  note b = decode_blob_ok [OF m(1)]
  have "finds (item_entries json item) name (wire_lookup json item name)"
    using finds_or [OF finds_map [of m name] finds_key [of primary secondary]] LocalSplit b(1,2) by simp
  moreover have "finds (item_entries json item) name (attribute_map_get attributes name)"
    using finds_keys [OF finds_map [of m name], of primary] finds_keys [OF finds_keys [OF finds_map [of m name], of primary]]
      LocalSplit m(2) b(2) by (simp split: option.splits)
  moreover have "readable_item json names item"
    using b(3) LocalSplit by (auto simp: readable_item_def split: option.splits)
  ultimately show ?thesis by blast
qed

section \<open>Properties\<close>

text \<open>
  C3: A condition on a stored item, evaluated on just the attributes it names, gives what it gives on the
  whole item as the service decodes it for a client: the item must decode, and where an attribute that the
  condition names is held more than once, in the key attributes and in the other attributes of a split item,
  it must be held with the same value each time.
\<close>

theorem wire_condition_correct:
  assumes "attribute_map_try_from json item = Inr attributes"
    and "\<And>name. name \<in> set (condition_roots c) \<Longrightarrow> one_value (item_entries json item) name"
  shows "evaluate_wire_condition b64 json (Some item) c = Inr (evaluate_condition b64 (attribute_map_get attributes) c)"
proof -
  let ?fs = "collect_condition_roots c []"
  have fs: "distinct ?fs" "set ?fs = set (condition_roots c)" using collect_roots [of c "[]"] by auto
  have "select_attribute_values json item ?fs = Inr (map (wire_lookup json item) ?fs)"
    using select_values [OF fs(1)] finds_wire_lookup [OF assms(1)] by blast
  moreover have "wire_lookup json item name = attribute_map_get attributes name" if "name \<in> set (condition_roots c)" for name
    using finds_unique [OF assms(2) [OF that]] finds_wire_lookup [OF assms(1), of name] by blast
  then have "evaluate_condition b64 (selected_get ?fs (map (wire_lookup json item) ?fs)) c
    = evaluate_condition b64 (attribute_map_get attributes) c"
    by (intro evaluate_condition_roots) (simp add: selected_get_map fs(2))
  ultimately show ?thesis by (simp add: evaluate_wire_condition_def)
qed

definition split_sample :: wire_item where
  "split_sample = LocalSplit \<lparr>hash_key_name = ''pk'', hash_key = S ''key'', sort_key_name = Some ''n'', sort_key = Some (N ''1'')\<rparr> None (Some ''blob'')"

theorem wire_condition_correct_witness:
  "let json = (\<lambda>_. ([(''s'', Inr (S ''x'')), (''n'', Inr (N ''1''))], None :: string option)) in
   evaluate_wire_condition (\<lambda>_. None) json (Some split_sample) (CAnd [Equal ''n'' (N ''1.0''), Exists ''s'', Equal ''pk'' (S ''key'')])
     = Inr (evaluate_condition (\<lambda>_. None) (attribute_map_get [(''s'', S ''x''), (''n'', N ''1''), (''pk'', S ''key'')])
         (CAnd [Equal ''n'' (N ''1.0''), Exists ''s'', Equal ''pk'' (S ''key'')]))"
  unfolding Let_def
  by (rule wire_condition_correct)
    (auto simp: split_sample_def attribute_map_try_from_def decode_non_key_attributes_def decode_attribute_map_def
      insert_key_attributes_def attribute_map_get_def blob_is_empty_json_object_def trim_ascii_whitespace_def
      is_ascii_whitespace_def one_value_def key_entries_def object_entries_def condition_roots_def root_field_def path_separator_def)





text \<open>
  C27: A condition on an indexed item gives what it gives on the attributes that the item resolves
  to, whether or not the cache of roots is used.
\<close>

theorem indexed_condition_correct:
  fixes resolve :: "string \<Rightarrow> 'e + attribute_value option"
  assumes "\<And>name. name \<in> set (condition_roots c) \<Longrightarrow> resolve name = Inr (item name)"
  shows "evaluate_indexed_wire_condition b64 (Some resolve) c = Inr (evaluate_condition b64 item c)"
proof -
  define r :: "string \<Rightarrow> 'e + attribute_value option" where "r = (\<lambda>name. Inr (item name))"
  have "fst (try_evaluate_condition_with_root b64 c (pure_resolver resolve) ()) = Inr (evaluate_condition b64 item c)"
    using pure_roots [of c resolve r b64] assms pure_evaluation [OF r_def, of b64 c] by (simp add: r_def)
  then show ?thesis
    using cached_roots_outcome [of b64 c resolve "()"] by (simp add: evaluate_indexed_wire_condition_def Let_def)
qed

theorem indexed_condition_correct_witness:
  "let item = (\<lambda>name. if name = ''a'' then Some (M [(''x'', N ''2''), (''y'', N ''3'')]) else None);
       c = COr [LessThan ''a.x'' ''1'', GreaterThan ''a.y'' ''2''] in
   evaluate_indexed_wire_condition (\<lambda>_. None) (Some (\<lambda>name. Inr (item name) :: string + attribute_value option)) c
     = Inr (evaluate_condition (\<lambda>_. None) item c)"
  unfolding Let_def by (rule indexed_condition_correct) simp

text \<open>
  C25: The cache of roots is transparent for any resolver that answers by name: the outcome, an
  error included, is that of the evaluation without it.
\<close>

theorem cached_roots_transparent:
  "fst (try_evaluate_condition_with_cached_roots b64 c (\<lambda>name s. (r name, s)) s)
     = fst (try_evaluate_condition_with_root b64 c (\<lambda>name s. (r name, s)) s)"
  using cached_roots_outcome [of b64 c r s] direct.evaluation_answers [of b64 c r s] by simp

text \<open>
  C26: With the cache, no root attribute is resolved twice in one evaluation.
\<close>

theorem cached_roots_once:
  "distinct (snd (try_evaluate_condition_with_cached_roots b64 c (recording r) []))"
proof -
  have "logs_cache (Cached [] [])" by (simp add: logs_cache_def)
  from recording_evaluation [OF this, of b64 c r] show ?thesis
    by (auto simp: try_evaluate_condition_with_cached_roots_def cached_inner_eq once_def logs_cache_def
        split: prod.splits sum.splits)
qed

text \<open>
  C28: The cache is chosen exactly when the roots of the condition, in the order of its leaves, repeat
  or do not fit the eight slots of the detector.
\<close>

theorem repeated_root_iff:
  "condition_has_repeated_root_field c \<longleftrightarrow> \<not> (distinct (condition_roots c) \<and> length (condition_roots c) \<le> 8)"
  using repeated_inner [of "[]" c] by (auto simp: condition_has_repeated_root_field_def split: if_splits)

end
