(* ===== verification/Value_Meaning.thy ===== *)
theory Value_Meaning
  imports Condition_Wire "HOL-Library.Finite_Map"
begin

text \<open>
  What attribute values denote, and the theorem that the equality used in conditions is equality
  of denotations.
\<close>

section \<open>What a value denotes\<close>

datatype meaning =
    MeansS string
  | MeansN rat
  | MeansB string
  | MeansSS "string set"
  | MeansNS "rat set"
  | MeansBS "string set"
  | MeansBool bool
  | MeansNull bool
  | MeansL "meaning list"
  | MeansM "(string, meaning) fmap"

fun means :: "attribute_value \<Rightarrow> meaning" where
  "means (S s) = MeansS s"
| "means (N n) = MeansN (text_value n)"
| "means (B b) = MeansB b"
| "means (SS ss) = MeansSS (set ss)"
| "means (NS ns) = MeansNS (text_value ` set ns)"
| "means (BS bs) = MeansBS (set bs)"
| "means (BOOL b) = MeansBool b"
| "means (NULL b) = MeansNull b"
| "means (L l) = MeansL (map means l)"
| "means (M m) = MeansM (fmap_of_list (map (\<lambda>(k, v). (k, means v)) m))"

text \<open>Numbers are number texts, sets hold no member twice, maps no name twice.\<close>

fun wf_value :: "attribute_value \<Rightarrow> bool" where
  "wf_value (N n) \<longleftrightarrow> number_text n"
| "wf_value (SS ss) \<longleftrightarrow> distinct ss"
| "wf_value (NS ns) \<longleftrightarrow> list_all number_text ns \<and> distinct (map text_value ns)"
| "wf_value (BS bs) \<longleftrightarrow> distinct bs"
| "wf_value (L l) \<longleftrightarrow> list_all wf_value l"
| "wf_value (M m) \<longleftrightarrow> keys_distinct m \<and> list_all (\<lambda>(k, v). wf_value v) m"
| "wf_value (S _) \<longleftrightarrow> True"
| "wf_value (B _) \<longleftrightarrow> True"
| "wf_value (BOOL _) \<longleftrightarrow> True"
| "wf_value (NULL _) \<longleftrightarrow> True"

lemma subset_same_length:
  assumes "distinct xs" "distinct ys"
  shows "length xs = length ys \<and> set xs \<subseteq> set ys \<longleftrightarrow> set xs = set ys"
  using assms by (metis List.finite_set card_subset_eq distinct_card subset_refl)

lemma string_sets_equal_iff:
  "distinct l \<Longrightarrow> distinct r \<Longrightarrow> string_sets_equal l r \<longleftrightarrow> set l = set r"
  using subset_same_length [of l r] by (auto simp: string_sets_equal_def list_all_iff)

lemma number_equal_iff:
  "number_text a \<Longrightarrow> number_text b \<Longrightarrow> is_ok_and (compare_dynamodb_numbers a b) is_eq \<longleftrightarrow> text_value a = text_value b"
  by (simp add: compare_value is_ok_and_def)

lemma number_sets_equal_iff:
  assumes "list_all number_text l" "list_all number_text r" "distinct (map text_value l)" "distinct (map text_value r)"
  shows "number_sets_equal l r \<longleftrightarrow> text_value ` set l = text_value ` set r"
proof -
  have "number_sets_equal l r \<longleftrightarrow> length l = length r \<and> text_value ` set l \<subseteq> text_value ` set r"
    using assms(1,2) by (fastforce simp: number_sets_equal_def list_all_iff list_ex_iff number_equal_iff)
  then show ?thesis using subset_same_length [OF assms(3,4)] by simp
qed

lemma lists_equal_iff:
  assumes "\<And>x y. x \<in> set l \<Longrightarrow> y \<in> set r \<Longrightarrow> eq x y \<longleftrightarrow> f x = f y"
  shows "length l = length r \<and> list_all (\<lambda>(x, y). eq x y) (zip l r) \<longleftrightarrow> map f l = map f r"
proof -
  have "list_all (\<lambda>(x, y). eq x y) (zip l r) \<longleftrightarrow> list_all (\<lambda>(x, y). f x = f y) (zip l r)"
    using assms by (intro list.pred_cong) (auto dest: set_zip_leftD set_zip_rightD)
  then have "length l = length r \<and> list_all (\<lambda>(x, y). eq x y) (zip l r) \<longleftrightarrow> list_all2 (\<lambda>x y. f x = f y) l r"
    by (simp add: list_all2_iff list_all_iff)
  also have "\<dots> \<longleftrightarrow> map f l = map f r" by (simp add: list.rel_eq [symmetric] list.rel_map)
  finally show ?thesis .
qed

lemma map_of_means:
  "map_of (map (\<lambda>(k, v). (k, f v)) m) k = map_option f (map_of m k)"
  "map_of (map (\<lambda>x. (fst x, f (snd x))) m) k = map_option f (map_of m k)"
  by (induction m) auto

lemma maps_equal_iff:
  assumes "keys_distinct l" "keys_distinct r"
    and eq: "\<And>k v k' v'. (k, v) \<in> set l \<Longrightarrow> (k', v') \<in> set r \<Longrightarrow> eq v v' \<longleftrightarrow> f v = f v'"
  shows "length l = length r \<and> list_all (\<lambda>(k, v). case vec_map_get r k of None \<Rightarrow> False | Some v' \<Rightarrow> eq v v') l
    \<longleftrightarrow> fmap_of_list (map (\<lambda>(k, v). (k, f v)) l) = fmap_of_list (map (\<lambda>(k, v). (k, f v)) r)"
proof -
  let ?g = "\<lambda>m k. map_option f (map_of m k)"
  have "list_all (\<lambda>(k, v). case vec_map_get r k of None \<Rightarrow> False | Some v' \<Rightarrow> eq v v') l
    \<longleftrightarrow> (\<forall>(k, v) \<in> set l. ?g r k = Some (f v))"
    unfolding list_all_iff vec_map_get_map_of using eq
    by (fastforce dest: map_of_SomeD split: option.splits)
  then have "length l = length r \<and> list_all (\<lambda>(k, v). case vec_map_get r k of None \<Rightarrow> False | Some v' \<Rightarrow> eq v v') l
    \<longleftrightarrow> vec_map_eq (map (\<lambda>(k, v). (k, f v)) l) (map (\<lambda>(k, v). (k, f v)) r)"
    by (simp add: vec_map_eq_def list_all_iff vec_map_get_map_of map_of_means split_beta')
  also have "\<dots> \<longleftrightarrow> (\<forall>k. ?g l k = ?g r k)"
    using vec_map_eq_iff [of "map (\<lambda>(k, v). (k, f v)) l" "map (\<lambda>(k, v). (k, f v)) r"] assms(1,2)
    by (simp add: vec_map_get_map_of map_of_means o_def split_beta')
  also have "\<dots> \<longleftrightarrow> fmap_of_list (map (\<lambda>(k, v). (k, f v)) l) = fmap_of_list (map (\<lambda>(k, v). (k, f v)) r)"
  proof
    assume "\<forall>k. ?g l k = ?g r k"
    then show "fmap_of_list (map (\<lambda>(k, v). (k, f v)) l) = fmap_of_list (map (\<lambda>(k, v). (k, f v)) r)"
      by (intro fmap_ext) (simp add: fmlookup_of_list map_of_means)
  next
    assume e: "fmap_of_list (map (\<lambda>(k, v). (k, f v)) l) = fmap_of_list (map (\<lambda>(k, v). (k, f v)) r)"
    show "\<forall>k. ?g l k = ?g r k"
    proof
      fix k
      show "?g l k = ?g r k"
        using arg_cong [OF e, of "\<lambda>m. fmlookup m k"] by (simp add: fmlookup_of_list map_of_means)
    qed
  qed
  finally show ?thesis .
qed

lemma values_equal_simps:
  "dynamodb_attribute_values_equal (S s) y \<longleftrightarrow> S s = y"
  "dynamodb_attribute_values_equal (B s) y \<longleftrightarrow> B s = y"
  "dynamodb_attribute_values_equal (BOOL b) y \<longleftrightarrow> BOOL b = y"
  "dynamodb_attribute_values_equal (NULL b) y \<longleftrightarrow> NULL b = y"
  "dynamodb_attribute_values_equal (N l) y \<longleftrightarrow>
     (case y of N r \<Rightarrow> is_ok_and (compare_dynamodb_numbers l r) is_eq | _ \<Rightarrow> False)"
  "dynamodb_attribute_values_equal (SS ls) y \<longleftrightarrow> (case y of SS rs \<Rightarrow> string_sets_equal ls rs | _ \<Rightarrow> False)"
  "dynamodb_attribute_values_equal (BS ls) y \<longleftrightarrow> (case y of BS rs \<Rightarrow> string_sets_equal ls rs | _ \<Rightarrow> False)"
  "dynamodb_attribute_values_equal (NS ls) y \<longleftrightarrow> (case y of NS rs \<Rightarrow> number_sets_equal ls rs | _ \<Rightarrow> False)"
  "dynamodb_attribute_values_equal (L xs) y \<longleftrightarrow> (case y of
     L ys \<Rightarrow> length xs = length ys \<and> list_all (\<lambda>(x, y). dynamodb_attribute_values_equal x y) (zip xs ys)
   | _ \<Rightarrow> False)"
  "dynamodb_attribute_values_equal (M m) y \<longleftrightarrow> (case y of
     M n \<Rightarrow> length m = length n \<and> list_all (\<lambda>(k, v). case vec_map_get n k of
        None \<Rightarrow> False | Some v' \<Rightarrow> dynamodb_attribute_values_equal v v') m
   | _ \<Rightarrow> False)"
  by (subst dynamodb_attribute_values_equal.simps, simp split: attribute_value.split)+

lemma means_equal_iff:
  "wf_value x \<Longrightarrow> wf_value y \<Longrightarrow> dynamodb_attribute_values_equal x y \<longleftrightarrow> means x = means y"
proof (induction x arbitrary: y)
  case (N n) then show ?case by (cases y) (simp_all add: values_equal_simps number_equal_iff)
next
  case (SS ss) then show ?case by (cases y) (simp_all add: values_equal_simps string_sets_equal_iff)
next
  case (NS ns) then show ?case by (cases y) (simp_all add: values_equal_simps number_sets_equal_iff)
next
  case (BS bs) then show ?case by (cases y) (simp_all add: values_equal_simps string_sets_equal_iff)
next
  case (L l)
  show ?case
  proof (cases y)
    case (L r)
    then show ?thesis using L.IH L.prems
      lists_equal_iff [of l r dynamodb_attribute_values_equal means]
      by (simp add: values_equal_simps list_all_iff)
  qed (simp_all add: values_equal_simps)
next
  case (M m)
  show ?case
  proof (cases y)
    case (M n)
    have "dynamodb_attribute_values_equal v v' \<longleftrightarrow> means v = means v'"
      if "(k, v) \<in> set m" "(k', v') \<in> set n" for k v k' v'
      using that M.IH [OF that(1)] M.prems M by (fastforce simp: list_all_iff)
    then show ?thesis using maps_equal_iff [of m n dynamodb_attribute_values_equal means] M M.prems
      by (simp add: values_equal_simps)
  qed (simp_all add: values_equal_simps)
next
  case (S s) then show ?case by (cases y) (auto simp: values_equal_simps)
next
  case (B s) then show ?case by (cases y) (auto simp: values_equal_simps)
next
  case (BOOL b) then show ?case by (cases y) (auto simp: values_equal_simps)
next
  case (NULL b) then show ?case by (cases y) (auto simp: values_equal_simps)
qed

text \<open>
  C11: Equality of attribute values in conditions is equality of what they denote: numbers as
  rationals, sets without order, maps by name, lists in order; so on well-formed values it is an
  equivalence relation, at any depth of nesting.
\<close>

theorem values_equal_iff_same_meaning:
  assumes "wf_value x" "wf_value y"
  shows "dynamodb_attribute_values_equal x y \<longleftrightarrow> means x = means y"
  by (rule means_equal_iff [OF assms])

theorem values_equal_iff_same_meaning_witness:
  "dynamodb_attribute_values_equal (L [SS [''a'', ''b''], M [(''x'', BOOL True), (''y'', S ''z'')]])
     (L [SS [''b'', ''a''], M [(''y'', S ''z''), (''x'', BOOL True)]]) \<longleftrightarrow>
   means (L [SS [''a'', ''b''], M [(''x'', BOOL True), (''y'', S ''z'')]])
     = means (L [SS [''b'', ''a''], M [(''y'', S ''z''), (''x'', BOOL True)]])"
  by (rule values_equal_iff_same_meaning) simp_all

end
