(* ===== verification/Condition_Lexer.thy ===== *)
theory Condition_Lexer
  imports Condition_Wire
begin

text \<open>
  The lexer of the condition-expression parser, on the unread suffix of the input, with the lemma
  that every token but the end of input consumes some of it.
\<close>

section \<open>Characters\<close>

text \<open>
  A Rust \<open>char\<close> is the byte string of its UTF-8 encoding, and the position of the lexer is the
  unread suffix of the input. Character classes of ASCII are written out; those of other
  characters come from the Unicode tables, the parameter \<open>uc\<close>.
\<close>

record unicode =
  uc_whitespace :: "string \<Rightarrow> bool"
  uc_alphabetic :: "string \<Rightarrow> bool"
  uc_numeric :: "string \<Rightarrow> bool"

definition utf8_len :: "char \<Rightarrow> nat" where
  "utf8_len c =
     (if (of_char c :: nat) < 128 then 1 else if (of_char c :: nat) < 224 then 2
      else if (of_char c :: nat) < 240 then 3 else 4)"

definition current_char :: "string \<Rightarrow> string option" where
  "current_char s = (case s of [] \<Rightarrow> None | c # _ \<Rightarrow> Some (take (utf8_len c) s))"

definition advance_char :: "string \<Rightarrow> string" where
  "advance_char s = (case s of [] \<Rightarrow> [] | c # _ \<Rightarrow> drop (utf8_len c) s)"

fun ascii_char :: "string \<Rightarrow> (char \<Rightarrow> bool) \<Rightarrow> (string \<Rightarrow> bool) \<Rightarrow> bool" where
  "ascii_char [c] test other = (if (of_char c :: nat) < 128 then test c else other [c])"
| "ascii_char ch test other = other ch"

definition char_is_whitespace :: "unicode \<Rightarrow> string \<Rightarrow> bool" where
  "char_is_whitespace uc ch =
     ascii_char ch (\<lambda>c. (of_char c :: nat) = 32 \<or> 9 \<le> (of_char c :: nat) \<and> (of_char c :: nat) \<le> 13)
       (uc_whitespace uc)"

definition is_ascii_letter :: "char \<Rightarrow> bool" where
  "is_ascii_letter c \<longleftrightarrow> 65 \<le> (of_char c :: nat) \<and> (of_char c :: nat) \<le> 90
     \<or> 97 \<le> (of_char c :: nat) \<and> (of_char c :: nat) \<le> 122"

definition char_is_alphabetic :: "unicode \<Rightarrow> string \<Rightarrow> bool" where
  "char_is_alphabetic uc ch = ascii_char ch is_ascii_letter (uc_alphabetic uc)"

definition char_is_alphanumeric :: "unicode \<Rightarrow> string \<Rightarrow> bool" where
  "char_is_alphanumeric uc ch =
     ascii_char ch (\<lambda>c. is_ascii_letter c \<or> is_ascii_digit c) (\<lambda>ch. uc_alphabetic uc ch \<or> uc_numeric uc ch)"

definition to_ascii_lower :: "char \<Rightarrow> char" where
  "to_ascii_lower c =
     (if 65 \<le> (of_char c :: nat) \<and> (of_char c :: nat) \<le> 90 then char_of ((of_char c :: nat) + 32) else c)"

definition eq_ignore_ascii_case :: "string \<Rightarrow> string \<Rightarrow> bool" where
  "eq_ignore_ascii_case a b \<longleftrightarrow> map to_ascii_lower a = map to_ascii_lower b"

lemma utf8_len_pos [simp]: "0 < utf8_len c"
  by (simp add: utf8_len_def)

lemma advance_char_shorter: "s \<noteq> [] \<Longrightarrow> length (advance_char s) < length s"
  by (cases s) (simp_all add: advance_char_def)

lemma advance_char_le: "length (advance_char s) \<le> length s"
  by (cases s) (simp_all add: advance_char_def)

lemma current_char_Some: "current_char s = Some ch \<Longrightarrow> s \<noteq> [] \<and> s = ch @ advance_char s"
  by (cases s) (auto simp: current_char_def advance_char_def)

lemma current_char_Some_ne: "current_char s = Some ch \<Longrightarrow> length (advance_char s) < length s"
  using advance_char_shorter current_char_Some by blast

section \<open>Tokens\<close>

datatype token =
    TIdentifier string
  | TAttributeName string
  | TAttributeValue string
  | TString string
  | TNumber string
  | TEqual | TNotEqual | TLessThan | TLessThanEqual | TGreaterThan | TGreaterThanEqual
  | TAnd | TOr | TNot | TBetween | TIn
  | TAttributeExists | TAttributeNotExists | TAttributeType | TBeginsWith | TContains | TSize
  | TLeftParen | TRightParen | TLeftBracket | TRightBracket | TComma | TDot
  | TEof

datatype parse_error =
    UnexpectedCharacter string
  | UnterminatedString
  | ExpectedToken token token
  | SameOperand string
  | AttributeTypeOperand
  | ExpectedOperatorAfterValue token
  | ExpectedOperatorAfterField string token
  | NameNotFound string
  | ValueNotFound string
  | ExpectedPath token
  | ExpectedIndex token
  | ExpectedSegment token
  | ExpectedValue token
  | ExpectedListSeparator token
  | BetweenBounds attribute_value attribute_value
  | SizeNotNumber
  | SizeOperator
  | TrailingToken token
  | OutOfFuel

section \<open>The lexer\<close>

function skip_whitespace :: "unicode \<Rightarrow> string \<Rightarrow> string" where
  "skip_whitespace uc s =
     (case current_char s of
        Some ch \<Rightarrow> if char_is_whitespace uc ch then skip_whitespace uc (advance_char s) else s
      | None \<Rightarrow> s)"
  by auto
termination
  by (relation "measure (length o snd)") (auto simp: current_char_Some_ne)

abbreviation (input) backslash :: string where "backslash \<equiv> [CHR 0x5C]"

text \<open>The loop of \<open>read_string\<close>, after the opening quote; \<open>acc\<close> is the value read so far.\<close>

definition escape_text :: "string \<Rightarrow> string" where
  "escape_text escaped =
     (if escaped = ''n'' then [CHR 0x0A] else if escaped = ''t'' then [CHR 0x09]
      else if escaped = ''r'' then [CHR 0x0D] else if escaped = backslash then backslash
      else if escaped = [CHR 0x27] then [CHR 0x27] else if escaped = [CHR 0x22] then [CHR 0x22]
      else backslash @ escaped)"

function read_string_loop :: "string \<Rightarrow> string \<Rightarrow> string \<Rightarrow> parse_error + string \<times> string" where
  "read_string_loop quote acc s =
     (case current_char s of
        None \<Rightarrow> Inl UnterminatedString
      | Some ch \<Rightarrow>
          if ch = quote then Inr (acc, advance_char s)
          else if ch = backslash then
            (let s1 = advance_char s in
             case current_char s1 of
               Some escaped \<Rightarrow>
                 read_string_loop quote
                   (acc @ escape_text escaped)
                   (advance_char s1)
             | None \<Rightarrow> read_string_loop quote (acc @ backslash) s1)
          else read_string_loop quote (acc @ ch) (advance_char s))"
  by auto
termination
  by (relation "measure (\<lambda>(_, _, s). length s)")
    (auto simp: current_char_Some_ne dest: current_char_Some_ne intro: less_trans)

declare skip_whitespace.simps [simp del] read_string_loop.simps [simp del]

definition read_string :: "string \<Rightarrow> string \<Rightarrow> parse_error + string \<times> string" where
  "read_string quote s = read_string_loop quote [] (advance_char s)"

function read_while :: "(string \<Rightarrow> bool) \<Rightarrow> string \<Rightarrow> string \<times> string" where
  "read_while test s =
     (case current_char s of
        Some ch \<Rightarrow> if test ch then (let (taken, rest) = read_while test (advance_char s) in (ch @ taken, rest))
                  else ([], s)
      | None \<Rightarrow> ([], s))"
  by auto
termination
  by (relation "measure (length o snd)") (auto simp: current_char_Some_ne)

declare read_while.simps [simp del]

definition read_identifier_slice :: "unicode \<Rightarrow> string \<Rightarrow> string \<times> string" where
  "read_identifier_slice uc s = read_while (\<lambda>ch. char_is_alphanumeric uc ch \<or> ch = ''_'') s"

definition read_number :: "string \<Rightarrow> string \<times> string" where
  "read_number s =
     read_while (\<lambda>ch. ascii_char ch is_ascii_digit (\<lambda>_. False) \<or> ch = ''.'' \<or> ch = ''-'' \<or> ch = ''+'') s"

definition identifier_token :: "string \<Rightarrow> token" where
  "identifier_token identifier =
     (if eq_ignore_ascii_case identifier ''AND'' then TAnd
      else if eq_ignore_ascii_case identifier ''OR'' then TOr
      else if eq_ignore_ascii_case identifier ''NOT'' then TNot
      else if eq_ignore_ascii_case identifier ''BETWEEN'' then TBetween
      else if eq_ignore_ascii_case identifier ''IN'' then TIn
      else if identifier = ''attribute_exists'' then TAttributeExists
      else if identifier = ''attribute_not_exists'' then TAttributeNotExists
      else if identifier = ''attribute_type'' then TAttributeType
      else if identifier = ''begins_with'' then TBeginsWith
      else if identifier = ''contains'' then TContains
      else if identifier = ''size'' then TSize
      else TIdentifier identifier)"

lemma skip_whitespace_le: "length (skip_whitespace uc s) \<le> length s"
proof (induction uc s rule: skip_whitespace.induct)
  case (1 uc s)
  then show ?case using advance_char_le [of s]
    by (subst skip_whitespace.simps) (fastforce split: option.splits)
qed

lemma skip_whitespace_shorter:
  "current_char s = Some ch \<Longrightarrow> char_is_whitespace uc ch \<Longrightarrow> length (skip_whitespace uc s) < length s"
  using skip_whitespace_le [of uc "advance_char s"] current_char_Some_ne [of s ch]
  by (simp add: skip_whitespace.simps [of uc s])

function next_token :: "unicode \<Rightarrow> string \<Rightarrow> parse_error + token \<times> string" where
  "next_token uc s =
     (case current_char s of
        None \<Rightarrow> Inr (TEof, s)
      | Some ch \<Rightarrow>
          let s1 = advance_char s in
          if char_is_whitespace uc ch then next_token uc (skip_whitespace uc s)
          else if ch = ''('' then Inr (TLeftParen, s1)
          else if ch = '')'' then Inr (TRightParen, s1)
          else if ch = ''['' then Inr (TLeftBracket, s1)
          else if ch = '']'' then Inr (TRightBracket, s1)
          else if ch = '','' then Inr (TComma, s1)
          else if ch = ''.'' then Inr (TDot, s1)
          else if ch = ''='' then Inr (TEqual, s1)
          else if ch = ''<'' then
            (if current_char s1 = Some ''>'' then Inr (TNotEqual, advance_char s1)
             else if current_char s1 = Some ''='' then Inr (TLessThanEqual, advance_char s1)
             else Inr (TLessThan, s1))
          else if ch = ''>'' then
            (if current_char s1 = Some ''='' then Inr (TGreaterThanEqual, advance_char s1)
             else Inr (TGreaterThan, s1))
          else if ch = [CHR 0x22] \<or> ch = [CHR 0x27] then
            ebind (read_string ch s) (\<lambda>(value, rest). Inr (TString value, rest))
          else if ch = ''#'' then
            (let (name, rest) = read_identifier_slice uc s1 in Inr (TAttributeName (ch @ name), rest))
          else if ch = '':'' then
            (let (name, rest) = read_identifier_slice uc s1 in Inr (TAttributeValue (ch @ name), rest))
          else if ascii_char ch is_ascii_digit (\<lambda>_. False) \<or> ch = ''-'' then
            (let (number, rest) = read_number s in Inr (TNumber number, rest))
          else if char_is_alphabetic uc ch then
            (let (identifier, rest) = read_identifier_slice uc s in Inr (identifier_token identifier, rest))
          else Inl (UnexpectedCharacter ch))"
  by auto
termination
  by (relation "measure (length o snd)") (auto simp: skip_whitespace_shorter)

declare next_token.simps [simp del]

section \<open>The lexer makes progress\<close>

lemma read_while_le: "length (snd (read_while test s)) \<le> length s"
proof (induction test s rule: read_while.induct)
  case (1 test s)
  then show ?case using advance_char_le [of s]
    by (subst read_while.simps) (fastforce split: option.splits prod.splits)
qed

lemma read_while_shorter:
  "current_char s = Some ch \<Longrightarrow> test ch \<Longrightarrow> length (snd (read_while test s)) < length s"
  using read_while_le [of test "advance_char s"] current_char_Some_ne [of s ch]
  by (simp add: read_while.simps [of test s] split_beta)

lemma read_string_loop_le: "read_string_loop quote acc s = Inr (v, rest) \<Longrightarrow> length rest < length s"
proof (induction quote acc s rule: read_string_loop.induct)
  case (1 quote acc s)
  note step = read_string_loop.simps [of quote acc s]
  obtain ch where ch: "current_char s = Some ch"
    using "1.prems" step by (cases "current_char s") simp_all
  note sh = current_char_Some_ne [OF ch]
  consider "ch = quote" | "ch \<noteq> quote" "ch \<noteq> backslash" | "ch \<noteq> quote" "ch = backslash" by blast
  then show ?case
  proof cases
    case 1 then show ?thesis using "1.prems" step ch sh by simp
  next
    case 2
    then show ?thesis using "1.IH"(3) "1.prems" step ch sh by fastforce
  next
    case 3
    show ?thesis
    proof (cases "current_char (advance_char s)")
      case None
      then show ?thesis using "1.IH"(1) [OF ch 3 refl None] "1.prems" step ch sh 3 by simp
    next
      case (Some e)
      then show ?thesis using "1.IH"(2) [OF ch 3 refl Some] "1.prems" step ch sh 3
        current_char_Some_ne [OF Some] by simp
    qed
  qed
qed

lemma read_string_le:
  "current_char s = Some ch \<Longrightarrow> read_string q s = Inr (v, rest) \<Longrightarrow> length rest < length s"
  using read_string_loop_le [of q "[]" "advance_char s" v rest] current_char_Some_ne [of s ch]
  by (simp add: read_string_def)

lemma identifier_le: "length (snd (read_identifier_slice uc s)) \<le> length s"
  by (simp add: read_identifier_slice_def read_while_le)

lemma identifier_shorter:
  "current_char s = Some ch \<Longrightarrow> char_is_alphanumeric uc ch \<Longrightarrow> length (snd (read_identifier_slice uc s)) < length s"
  by (simp add: read_identifier_slice_def read_while_shorter)

lemma number_shorter:
  "current_char s = Some ch \<Longrightarrow> ascii_char ch is_ascii_digit (\<lambda>_. False) \<or> ch = ''-'' \<Longrightarrow>
   length (snd (read_number s)) < length s"
  unfolding read_number_def by (rule read_while_shorter) auto

lemma alphabetic_alphanumeric: "char_is_alphabetic uc ch \<Longrightarrow> char_is_alphanumeric uc ch"
  unfolding char_is_alphabetic_def char_is_alphanumeric_def
  by (cases "(ch, is_ascii_letter, uc_alphabetic uc)" rule: ascii_char.cases) (auto split: if_splits)

lemma identifier_token_not_eof [simp]: "identifier_token i \<noteq> TEof"
  by (simp add: identifier_token_def)

definition consumes :: "string \<Rightarrow> parse_error + token \<times> string \<Rightarrow> bool" where
  "consumes s r \<longleftrightarrow> (\<forall>t rest. r = Inr (t, rest) \<longrightarrow> t \<noteq> TEof \<and> length rest < length s)"

lemma consumes_intros:
  "t \<noteq> TEof \<Longrightarrow> length rest < length s \<Longrightarrow> consumes s (Inr (t, rest))"
  "consumes s (Inl e)"
  "(c \<Longrightarrow> consumes s a) \<Longrightarrow> (\<not> c \<Longrightarrow> consumes s b) \<Longrightarrow> consumes s (if c then a else b)"
  "(\<And>v rest. m = Inr (v, rest) \<Longrightarrow> length rest < length s) \<Longrightarrow>
     consumes s (ebind m (\<lambda>x. Inr (TString (fst x), snd x)))"
  by (auto simp: consumes_def result_simps)

lemma next_token_progress:
  "next_token uc s = Inr (t, rest) \<Longrightarrow> if t = TEof then rest = [] else length rest < length s"
proof (induction uc s rule: next_token.induct)
  case (1 uc s)
  note step = next_token.simps [of uc s]
  show ?case
  proof (cases "current_char s")
    case None
    then have "s = []" by (cases s) (simp_all add: current_char_def)
    then show ?thesis using None "1.prems" step by auto
  next
    case (Some ch)
    note sh = current_char_Some_ne [OF Some]
    have sh2: "length (advance_char (advance_char s)) < length s"
      using sh advance_char_le [of "advance_char s"] by linarith
    show ?thesis
    proof (cases "char_is_whitespace uc ch")
      case True
      then show ?thesis using "1.IH" [OF Some refl True] "1.prems" step Some
        skip_whitespace_shorter [OF Some True] by (auto split: if_splits)
    next
      case False
      have id: "length (snd (read_identifier_slice uc (advance_char s))) < length s"
        using identifier_le [of uc "advance_char s"] sh by linarith
      have "consumes s (next_token uc s)"
        unfolding step Some Let_def option.case if_not_P [OF False] split_beta
        by (intro consumes_intros)
          (simp_all add: sh sh2 id read_string_le [OF Some] number_shorter [OF Some]
            identifier_shorter [OF Some alphabetic_alphanumeric])
      then show ?thesis using "1.prems" by (simp add: consumes_def)
    qed
  qed
qed

end
