(* ===== verification/Condition_Parser.thy ===== *)
theory Condition_Parser
  imports Condition_Lexer
begin

text \<open>
  The recursive-descent parser of condition expressions and the validator of key conditions. Each
  loop terminates because it consumes input (\<open>unparsed\<close>); the expression grammar runs on fuel.
\<close>

section \<open>Parser state\<close>

text \<open>
  What the parser reads besides the expression: the attribute names and values of the request
  (\<open>ExpressionNameLookup\<close>, \<open>AttributeValueLookup\<close>), and third-party functions: Unicode classes,
  base64 decoding and the JSON text of a value.
\<close>

record parse_env =
  pe_uc :: unicode
  pe_names :: "string \<Rightarrow> string option"
  pe_values :: "string \<Rightarrow> attribute_value option"
  pe_b64 :: base64
  pe_json :: "attribute_value \<Rightarrow> string"

datatype parser = Parser (current_token: token) (unread: string)

definition new_parser :: "parse_env \<Rightarrow> string \<Rightarrow> parse_error + parser" where
  "new_parser env input = ebind (next_token (pe_uc env) input) (\<lambda>(t, rest). Inr (Parser t rest))"

definition advance :: "parse_env \<Rightarrow> parser \<Rightarrow> parse_error + parser" where
  "advance env p = ebind (next_token (pe_uc env) (unread p)) (\<lambda>(t, rest). Inr (Parser t rest))"

definition expect_token :: "parse_env \<Rightarrow> token \<Rightarrow> parser \<Rightarrow> parse_error + parser" where
  "expect_token env expected p =
     (if current_token p = expected then advance env p
      else Inl (ExpectedToken expected (current_token p)))"

section \<open>Helpers\<close>

definition attribute_value_scalar :: "parse_env \<Rightarrow> attribute_value \<Rightarrow> string" where
  "attribute_value_scalar env value =
     (case value of
        S s \<Rightarrow> s | N s \<Rightarrow> s | B s \<Rightarrow> s
      | BOOL b \<Rightarrow> (if b then ''true'' else ''false'')
      | NULL _ \<Rightarrow> ''null''
      | SS v \<Rightarrow> (case v of [] \<Rightarrow> [] | x # _ \<Rightarrow> x)
      | NS v \<Rightarrow> (case v of [] \<Rightarrow> [] | x # _ \<Rightarrow> x)
      | BS v \<Rightarrow> (case v of [] \<Rightarrow> [] | x # _ \<Rightarrow> x)
      | L v \<Rightarrow> pe_json env value
      | M v \<Rightarrow> pe_json env value)"

definition attribute_value_scalar_to_string_owned :: "parse_env \<Rightarrow> attribute_value \<Rightarrow> string" where
  "attribute_value_scalar_to_string_owned env value =
     (case value of S s \<Rightarrow> s | N s \<Rightarrow> s | B s \<Rightarrow> s | _ \<Rightarrow> attribute_value_scalar env value)"

definition between_upper_is_less_than_lower :: "base64 \<Rightarrow> attribute_value \<Rightarrow> attribute_value \<Rightarrow> bool" where
  "between_upper_is_less_than_lower b64 lower upper =
     (case lower of
        N l \<Rightarrow> (case upper of N u \<Rightarrow> is_ok_and (compare_dynamodb_numbers u l) is_lt | _ \<Rightarrow> False)
      | S l \<Rightarrow> (case upper of S u \<Rightarrow> u < l | _ \<Rightarrow> False)
      | B l \<Rightarrow> (case upper of
            B u \<Rightarrow> (case b64 l of
                Some lb \<Rightarrow> (case b64 u of Some ub \<Rightarrow> ub < lb | None \<Rightarrow> u < l)
              | None \<Rightarrow> u < l)
          | _ \<Rightarrow> False)
      | _ \<Rightarrow> False)"

definition token_is_value :: "token \<Rightarrow> bool" where
  "token_is_value t = (case t of TAttributeValue _ \<Rightarrow> True | TString _ \<Rightarrow> True | TNumber _ \<Rightarrow> True | _ \<Rightarrow> False)"

definition attribute_value_to_in_values :: "attribute_value \<Rightarrow> attribute_value list" where
  "attribute_value_to_in_values value =
     (case value of
        SS v \<Rightarrow> map S v | NS v \<Rightarrow> map N v | BS v \<Rightarrow> map B v | L v \<Rightarrow> v | _ \<Rightarrow> [value])"

section \<open>Progress of the parser\<close>

definition unparsed :: "parser \<Rightarrow> nat" where
  "unparsed p = (if current_token p = TEof then 0 else Suc (length (unread p)))"

lemma advance_progress:
  "advance env p = Inr q \<Longrightarrow> current_token p \<noteq> TEof \<Longrightarrow> unparsed q < unparsed p"
  using next_token_progress [of "pe_uc env" "unread p"]
  by (fastforce simp: advance_def unparsed_def result_simps split: if_splits)

lemma expect_progress:
  "expect_token env t p = Inr q \<Longrightarrow> t \<noteq> TEof \<Longrightarrow> unparsed q < unparsed p"
  by (auto simp: expect_token_def advance_progress split: if_splits)

lemma expect_le [termination_simp]:
  "expect_token env t p = Inr q \<Longrightarrow> t \<noteq> TEof \<Longrightarrow> unparsed q \<le> unparsed p"
  using expect_progress less_imp_le by blast

section \<open>Paths and values\<close>

definition append_attribute_path_segment :: "parse_env \<Rightarrow> string \<Rightarrow> parser \<Rightarrow> parse_error + string \<times> parser" where
  "append_attribute_path_segment env path p =
     (case current_token p of
        TAttributeName name \<Rightarrow>
          (case pe_names env name of
             None \<Rightarrow> Inl (NameNotFound name)
           | Some actual_name \<Rightarrow> ebind (advance env p) (\<lambda>p. Inr (path @ actual_name, p)))
      | TIdentifier name \<Rightarrow> ebind (advance env p) (\<lambda>p. Inr (path @ name, p))
      | other \<Rightarrow> Inl (ExpectedSegment other))"

lemma segment_progress:
  "append_attribute_path_segment env path p = Inr (path', q) \<Longrightarrow> unparsed q < unparsed p"
  by (auto simp: append_attribute_path_segment_def result_simps advance_progress split: token.splits option.splits)

function attribute_path_loop :: "parse_env \<Rightarrow> string \<Rightarrow> parser \<Rightarrow> parse_error + string \<times> parser" where
  "attribute_path_loop env path p =
     (if current_token p = TDot then
        ebind (advance env p) (\<lambda>p1.
        ebind (append_attribute_path_segment env (path @ ''.'') p1) (\<lambda>(path, p2).
        attribute_path_loop env path p2))
      else if current_token p = TLeftBracket then
        ebind (advance env p) (\<lambda>p1.
        case current_token p1 of
          TNumber index \<Rightarrow>
            ebind (advance env p1) (\<lambda>p2.
            ebind (expect_token env TRightBracket p2) (\<lambda>p3.
            attribute_path_loop env (path @ ''['' @ index @ '']'') p3))
        | other \<Rightarrow> Inl (ExpectedIndex other))
      else Inr (path, p))"
  by auto
termination
proof (relation "measure (\<lambda>(_, _, p). unparsed p)", simp, goal_cases)
  case (1 env path p p1 x path' p2)
  then show ?case
    using advance_progress [of env p p1] segment_progress [of env "path @ ''.''" p1 path' p2] by auto
next
  case (2 env path p p1 index p2 p3)
  then show ?case
    using advance_progress [of env p p1] advance_progress [of env p1 p2] expect_progress [of env TRightBracket p2 p3]
    by simp
qed

declare attribute_path_loop.simps [simp del]

definition parse_attribute_path :: "parse_env \<Rightarrow> parser \<Rightarrow> parse_error + string \<times> parser" where
  "parse_attribute_path env p =
     (case current_token p of
        TAttributeName name \<Rightarrow>
          (case pe_names env name of
             None \<Rightarrow> Inl (NameNotFound name)
           | Some actual_name \<Rightarrow> ebind (advance env p) (attribute_path_loop env actual_name))
      | TIdentifier name \<Rightarrow> ebind (advance env p) (attribute_path_loop env name)
      | other \<Rightarrow> Inl (ExpectedPath other))"

definition next_token_starts_same_path :: "parse_env \<Rightarrow> string \<Rightarrow> parser \<Rightarrow> parse_error + bool" where
  "next_token_starts_same_path env field p =
     (case current_token p of
        TIdentifier name \<Rightarrow> Inr (name = field)
      | TAttributeName name \<Rightarrow>
          (case pe_names env name of
             None \<Rightarrow> Inl (NameNotFound name)
           | Some actual_name \<Rightarrow> Inr (actual_name = field))
      | _ \<Rightarrow> Inr False)"

function parse_attribute_value :: "parse_env \<Rightarrow> parser \<Rightarrow> parse_error + attribute_value \<times> parser" where
  "parse_attribute_value env p =
     (case current_token p of
        TLeftParen \<Rightarrow>
          ebind (advance env p) (\<lambda>p1.
          ebind (parse_attribute_value env p1) (\<lambda>(value, p2).
          ebind (expect_token env TRightParen p2) (\<lambda>p3. Inr (value, p3))))
      | TAttributeValue name \<Rightarrow>
          (case pe_values env name of
             None \<Rightarrow> Inl (ValueNotFound name)
           | Some value \<Rightarrow> ebind (advance env p) (\<lambda>p1. Inr (value, p1)))
      | TString value \<Rightarrow> ebind (advance env p) (\<lambda>p1. Inr (S value, p1))
      | TNumber value \<Rightarrow> ebind (advance env p) (\<lambda>p1. Inr (N value, p1))
      | other \<Rightarrow> Inl (ExpectedValue other))"
  by auto
termination
  by (relation "measure (\<lambda>(_, p). unparsed p)") (auto simp: advance_progress)

declare parse_attribute_value.simps [simp del]

function parse_value :: "parse_env \<Rightarrow> parser \<Rightarrow> parse_error + string \<times> parser" where
  "parse_value env p =
     (case current_token p of
        TLeftParen \<Rightarrow>
          ebind (advance env p) (\<lambda>p1.
          ebind (parse_value env p1) (\<lambda>(value, p2).
          ebind (expect_token env TRightParen p2) (\<lambda>p3. Inr (value, p3))))
      | TAttributeValue name \<Rightarrow>
          (case pe_values env name of
             None \<Rightarrow> Inl (ValueNotFound name)
           | Some value \<Rightarrow> ebind (advance env p) (\<lambda>p1. Inr (attribute_value_scalar env value, p1)))
      | TString value \<Rightarrow> ebind (advance env p) (\<lambda>p1. Inr (value, p1))
      | TNumber value \<Rightarrow> ebind (advance env p) (\<lambda>p1. Inr (value, p1))
      | other \<Rightarrow> Inl (ExpectedValue other))"
  by auto
termination
  by (relation "measure (\<lambda>(_, p). unparsed p)") (auto simp: advance_progress)

declare parse_value.simps [simp del]

lemma attribute_value_progress:
  "parse_attribute_value env p = Inr (v, q) \<Longrightarrow> unparsed q < unparsed p"
proof (induction env p arbitrary: v q rule: parse_attribute_value.induct)
  case (1 env p)
  show ?case
  proof (cases "current_token p = TLeftParen")
    case True
    then obtain p1 p2 where "advance env p = Inr p1" "parse_attribute_value env p1 = Inr (v, p2)"
      "expect_token env TRightParen p2 = Inr q"
      using "1.prems" by (auto simp: parse_attribute_value.simps [of env p] result_simps)
    then show ?thesis using "1.IH" [OF True] True advance_progress [of env p p1]
      expect_progress [of env TRightParen p2 q] by fastforce
  next
    case False
    then show ?thesis using "1.prems"
      by (auto simp: parse_attribute_value.simps [of env p] result_simps advance_progress
          split: token.splits option.splits)
  qed
qed

lemma value_progress: "parse_value env p = Inr (v, q) \<Longrightarrow> unparsed q < unparsed p"
proof (induction env p arbitrary: v q rule: parse_value.induct)
  case (1 env p)
  show ?case
  proof (cases "current_token p = TLeftParen")
    case True
    then obtain p1 p2 where "advance env p = Inr p1" "parse_value env p1 = Inr (v, p2)"
      "expect_token env TRightParen p2 = Inr q"
      using "1.prems" by (auto simp: parse_value.simps [of env p] result_simps)
    then show ?thesis using "1.IH" [OF True] True advance_progress [of env p p1]
      expect_progress [of env TRightParen p2 q] by fastforce
  next
    case False
    then show ?thesis using "1.prems"
      by (auto simp: parse_value.simps [of env p] result_simps advance_progress
          split: token.splits option.splits)
  qed
qed

lemma path_loop_progress: "attribute_path_loop env path p = Inr (path', q) \<Longrightarrow> unparsed q \<le> unparsed p"
proof (induction env path p arbitrary: path' q rule: attribute_path_loop.induct)
  case (1 env path p)
  note step = attribute_path_loop.simps [of env path p]
  consider "current_token p = TDot" | "current_token p = TLeftBracket"
    | "current_token p \<noteq> TDot" "current_token p \<noteq> TLeftBracket" by blast
  then show ?case
  proof cases
    case 1
    then obtain p1 path1 p2 where s: "advance env p = Inr p1"
      "append_attribute_path_segment env (path @ ''.'') p1 = Inr (path1, p2)"
      "attribute_path_loop env path1 p2 = Inr (path', q)"
      using "1.prems" step by (auto simp: result_simps)
    with "1.IH"(1) [OF 1 s(1,2) refl s(3)] advance_progress [OF s(1)] segment_progress [OF s(2)] 1
    show ?thesis by simp
  next
    case 2
    then obtain p1 where a: "advance env p = Inr p1"
      using "1.prems" step by (cases "advance env p") simp_all
    then obtain index where i: "current_token p1 = TNumber index"
      using "1.prems" step 2 by (cases "current_token p1") simp_all
    then obtain p2 p3 where "advance env p1 = Inr p2" "expect_token env TRightBracket p2 = Inr p3"
      "attribute_path_loop env (path @ ''['' @ index @ '']'') p3 = Inr (path', q)"
      using "1.prems" step 2 a by (auto simp: result_simps)
    note s = a i this
    from s 2 have "unparsed q \<le> unparsed p3" using "1.IH"(2) [of p1 index p2 p3] by simp
    with advance_progress [OF s(1)] advance_progress [OF s(3)] expect_progress [OF s(4)] 2 s(2)
    show ?thesis by simp
  next
    case 3 then show ?thesis using "1.prems" step by simp
  qed
qed

lemma path_progress: "parse_attribute_path env p = Inr (path, q) \<Longrightarrow> unparsed q < unparsed p"
  by (auto simp: parse_attribute_path_def result_simps split: token.splits option.splits
      dest!: path_loop_progress advance_progress)

section \<open>Lists and comparisons\<close>

function value_list_loop :: "parse_env \<Rightarrow> attribute_value list \<Rightarrow> parser
    \<Rightarrow> parse_error + attribute_value list \<times> parser" where
  "value_list_loop env vals p =
     ebind (parse_attribute_value env p) (\<lambda>(v, p1).
       if current_token p1 = TComma then ebind (advance env p1) (value_list_loop env (vals @ [v]))
       else if current_token p1 = TRightParen then Inr (vals @ [v], p1)
       else Inl (ExpectedListSeparator (current_token p1)))"
  by auto
termination
proof (relation "measure (\<lambda>(_, _, p). unparsed p)", simp, goal_cases)
  case (1 env vals p x v p1 p2)
  then show ?case
    using attribute_value_progress [of env p v p1] advance_progress [of env p1 p2] by auto
qed

definition parse_value_list :: "parse_env \<Rightarrow> parser \<Rightarrow> parse_error + attribute_value list \<times> parser" where
  "parse_value_list env p = value_list_loop env [] p"

function in_list_loop :: "parse_env \<Rightarrow> attribute_value list \<Rightarrow> parser
    \<Rightarrow> parse_error + attribute_value list \<times> parser" where
  "in_list_loop env vals p =
     (if current_token p = TComma then
        ebind (advance env p) (\<lambda>p1.
        ebind (parse_attribute_value env p1) (\<lambda>(v, p2). in_list_loop env (vals @ [v]) p2))
      else if current_token p = TRightParen then Inr (vals, p)
      else Inl (ExpectedListSeparator (current_token p)))"
  by auto
termination
proof (relation "measure (\<lambda>(_, _, p). unparsed p)", simp, goal_cases)
  case (1 env vals p p1 x v p2)
  then show ?case
    using attribute_value_progress [of env p1 v p2] advance_progress [of env p p1] by auto
qed

declare value_list_loop.simps [simp del] in_list_loop.simps [simp del]

definition size_operator :: "token \<Rightarrow> size_comparison option" where
  "size_operator t =
     (case t of
        TEqual \<Rightarrow> Some SizeEqual | TNotEqual \<Rightarrow> Some SizeNotEqual
      | TLessThan \<Rightarrow> Some SizeLessThan | TLessThanEqual \<Rightarrow> Some SizeLessThanEqual
      | TGreaterThan \<Rightarrow> Some SizeGreaterThan | TGreaterThanEqual \<Rightarrow> Some SizeGreaterThanEqual
      | _ \<Rightarrow> None)"

definition parse_size_comparison :: "parse_env \<Rightarrow> string \<Rightarrow> parser \<Rightarrow> parse_error + condition \<times> parser" where
  "parse_size_comparison env field p =
     (if current_token p = TBetween then
        ebind (advance env p) (\<lambda>p1.
        ebind (parse_attribute_value env p1) (\<lambda>(min_value, p2).
        ebind (expect_token env TAnd p2) (\<lambda>p3.
        ebind (parse_attribute_value env p3) (\<lambda>(max_value, p4).
        if between_upper_is_less_than_lower (pe_b64 env) min_value max_value
        then Inl (BetweenBounds min_value max_value)
        else
          ebind (ok_or SizeNotNumber (parse_usize (attribute_value_scalar_to_string_owned env min_value))) (\<lambda>lower.
          ebind (ok_or SizeNotNumber (parse_usize (attribute_value_scalar_to_string_owned env max_value))) (\<lambda>upper.
          Inr (CAnd [SizeCompare field SizeGreaterThanEqual lower, SizeCompare field SizeLessThanEqual upper], p4)))))))
      else
        case size_operator (current_token p) of
          None \<Rightarrow> Inl SizeOperator
        | Some operator \<Rightarrow>
            ebind (advance env p) (\<lambda>p1.
            ebind (parse_value env p1) (\<lambda>(size_str, p2).
            ebind (ok_or SizeNotNumber (parse_usize size_str)) (\<lambda>expected.
            Inr (if operator = SizeEqual then Size field expected else SizeCompare field operator expected, p2)))))"

definition parse_in_list :: "parse_env \<Rightarrow> string \<Rightarrow> parser \<Rightarrow> parse_error + condition \<times> parser" where
  "parse_in_list env field p =
     (case current_token p of
        TAttributeValue name \<Rightarrow>
          ebind (advance env p) (\<lambda>p1.
          case pe_values env name of
            None \<Rightarrow> Inl (ValueNotFound name)
          | Some v \<Rightarrow>
              if current_token p1 = TRightParen then
                ebind (expect_token env TRightParen p1) (\<lambda>p2. Inr (InValues field (attribute_value_to_in_values v), p2))
              else
                ebind (in_list_loop env [v] p1) (\<lambda>(vals, p2).
                ebind (expect_token env TRightParen p2) (\<lambda>p3. Inr (InValues field vals, p3))))
      | _ \<Rightarrow>
          ebind (parse_value_list env p) (\<lambda>(vals, p1).
          ebind (expect_token env TRightParen p1) (\<lambda>p2. Inr (InValues field vals, p2))))"

definition parse_comparison :: "parse_env \<Rightarrow> string \<Rightarrow> parser \<Rightarrow> parse_error + condition \<times> parser" where
  "parse_comparison env field p =
     (case current_token p of
        TEqual \<Rightarrow> ebind (advance env p) (\<lambda>p1. ebind (parse_attribute_value env p1) (\<lambda>(v, p2). Inr (Equal field v, p2)))
      | TNotEqual \<Rightarrow> ebind (advance env p) (\<lambda>p1. ebind (parse_attribute_value env p1) (\<lambda>(v, p2). Inr (NotEqual field v, p2)))
      | TLessThan \<Rightarrow> ebind (advance env p) (\<lambda>p1. ebind (parse_value env p1) (\<lambda>(v, p2). Inr (LessThan field v, p2)))
      | TLessThanEqual \<Rightarrow> ebind (advance env p) (\<lambda>p1. ebind (parse_value env p1) (\<lambda>(v, p2). Inr (LessThanEqual field v, p2)))
      | TGreaterThan \<Rightarrow> ebind (advance env p) (\<lambda>p1. ebind (parse_value env p1) (\<lambda>(v, p2). Inr (GreaterThan field v, p2)))
      | TGreaterThanEqual \<Rightarrow> ebind (advance env p) (\<lambda>p1. ebind (parse_value env p1) (\<lambda>(v, p2). Inr (GreaterThanEqual field v, p2)))
      | TBetween \<Rightarrow>
          ebind (advance env p) (\<lambda>p1.
          ebind (parse_attribute_value env p1) (\<lambda>(min_value, p2).
          ebind (expect_token env TAnd p2) (\<lambda>p3.
          ebind (parse_attribute_value env p3) (\<lambda>(max_value, p4).
          if between_upper_is_less_than_lower (pe_b64 env) min_value max_value
          then Inl (BetweenBounds min_value max_value)
          else Inr (Between field (attribute_value_scalar_to_string_owned env min_value)
                     (attribute_value_scalar_to_string_owned env max_value), p4)))))
      | TIn \<Rightarrow> ebind (advance env p) (\<lambda>p1. ebind (expect_token env TLeftParen p1) (parse_in_list env field))
      | other \<Rightarrow> Inl (ExpectedOperatorAfterField field other))"

section \<open>Primary conditions\<close>

definition parse_value_left_comparison_from_value :: "parse_env \<Rightarrow> attribute_value \<Rightarrow> parser
    \<Rightarrow> parse_error + condition \<times> parser" where
  "parse_value_left_comparison_from_value env left_value p =
     (case current_token p of
        TEqual \<Rightarrow>
          ebind (advance env p) (\<lambda>p1.
          if token_is_value (current_token p1)
          then ebind (parse_attribute_value env p1) (\<lambda>(right, p2). Inr (ValueEqual left_value right, p2))
          else ebind (parse_attribute_path env p1) (\<lambda>(field, p2). Inr (Equal field left_value, p2)))
      | TNotEqual \<Rightarrow>
          ebind (advance env p) (\<lambda>p1.
          if token_is_value (current_token p1)
          then ebind (parse_attribute_value env p1) (\<lambda>(right, p2). Inr (ValueNotEqual left_value right, p2))
          else ebind (parse_attribute_path env p1) (\<lambda>(field, p2). Inr (NotEqual field left_value, p2)))
      | TLessThan \<Rightarrow>
          ebind (advance env p) (\<lambda>p1. ebind (parse_attribute_path env p1) (\<lambda>(field, p2).
          Inr (GreaterThan field (attribute_value_scalar_to_string_owned env left_value), p2)))
      | TLessThanEqual \<Rightarrow>
          ebind (advance env p) (\<lambda>p1. ebind (parse_attribute_path env p1) (\<lambda>(field, p2).
          Inr (GreaterThanEqual field (attribute_value_scalar_to_string_owned env left_value), p2)))
      | TGreaterThan \<Rightarrow>
          ebind (advance env p) (\<lambda>p1. ebind (parse_attribute_path env p1) (\<lambda>(field, p2).
          Inr (LessThan field (attribute_value_scalar_to_string_owned env left_value), p2)))
      | TGreaterThanEqual \<Rightarrow>
          ebind (advance env p) (\<lambda>p1. ebind (parse_attribute_path env p1) (\<lambda>(field, p2).
          Inr (LessThanEqual field (attribute_value_scalar_to_string_owned env left_value), p2)))
      | other \<Rightarrow> Inl (ExpectedOperatorAfterValue other))"

definition parse_value_left_comparison :: "parse_env \<Rightarrow> parser \<Rightarrow> parse_error + condition \<times> parser" where
  "parse_value_left_comparison env p =
     ebind (parse_attribute_value env p) (\<lambda>(left_value, p1).
     parse_value_left_comparison_from_value env left_value p1)"

text \<open>The parser is cloned: a failure leaves the caller's parser where it was.\<close>

definition try_parse_parenthesized_operand_comparison :: "parse_env \<Rightarrow> parser \<Rightarrow> parse_error + condition \<times> parser" where
  "try_parse_parenthesized_operand_comparison env p =
     ebind (expect_token env TLeftParen p) (\<lambda>p1.
     if token_is_value (current_token p1) then
       ebind (parse_attribute_value env p1) (\<lambda>(left_value, p2).
       ebind (expect_token env TRightParen p2) (\<lambda>p3.
       parse_value_left_comparison_from_value env left_value p3))
     else
       ebind (parse_attribute_path env p1) (\<lambda>(field, p2).
       ebind (expect_token env TRightParen p2) (\<lambda>p3.
       parse_comparison env field p3)))"

definition parse_function_field :: "parse_env \<Rightarrow> parser \<Rightarrow> parse_error + string \<times> parser" where
  "parse_function_field env p =
     ebind (advance env p) (\<lambda>p1.
     ebind (expect_token env TLeftParen p1) (parse_attribute_path env))"

text \<open>The branches of \<open>parse_primary\<close> other than the parenthesis.\<close>

definition parse_test :: "parse_env \<Rightarrow> parser \<Rightarrow> parse_error + condition \<times> parser" where
  "parse_test env p =
     (case current_token p of
        TAttributeExists \<Rightarrow>
          ebind (parse_function_field env p) (\<lambda>(field, p2).
          ebind (expect_token env TRightParen p2) (\<lambda>p3. Inr (Exists field, p3)))
      | TAttributeNotExists \<Rightarrow>
          ebind (parse_function_field env p) (\<lambda>(field, p2).
          ebind (expect_token env TRightParen p2) (\<lambda>p3. Inr (NotExists field, p3)))
      | TBeginsWith \<Rightarrow>
          ebind (parse_function_field env p) (\<lambda>(field, p2).
          ebind (expect_token env TComma p2) (\<lambda>p3.
          ebind (parse_attribute_value env p3) (\<lambda>(prefix, p4).
          ebind (expect_token env TRightParen p4) (\<lambda>p5. Inr (BeginsWith field prefix, p5)))))
      | TContains \<Rightarrow>
          ebind (parse_function_field env p) (\<lambda>(field, p2).
          ebind (expect_token env TComma p2) (\<lambda>p3.
          ebind (next_token_starts_same_path env field p3) (\<lambda>same.
          if same then Inl (SameOperand field)
          else
            ebind (parse_attribute_value env p3) (\<lambda>(v, p4).
            ebind (expect_token env TRightParen p4) (\<lambda>p5. Inr (Contains field v, p5))))))
      | TAttributeType \<Rightarrow>
          ebind (parse_function_field env p) (\<lambda>(field, p2).
          ebind (expect_token env TComma p2) (\<lambda>p3.
          ebind (parse_attribute_value env p3) (\<lambda>(v, p4).
          case v of
            S attribute_type \<Rightarrow>
              ebind (expect_token env TRightParen p4) (\<lambda>p5. Inr (AttributeType field attribute_type, p5))
          | _ \<Rightarrow> Inl AttributeTypeOperand)))
      | TSize \<Rightarrow>
          ebind (parse_function_field env p) (\<lambda>(field, p2).
          ebind (expect_token env TRightParen p2) (\<lambda>p3. parse_size_comparison env field p3))
      | TAttributeValue _ \<Rightarrow> parse_value_left_comparison env p
      | TString _ \<Rightarrow> parse_value_left_comparison env p
      | TNumber _ \<Rightarrow> parse_value_left_comparison env p
      | _ \<Rightarrow> ebind (parse_attribute_path env p) (\<lambda>(field, p1). parse_comparison env field p1))"

section \<open>Expressions\<close>

definition combine_and :: "condition \<Rightarrow> condition \<Rightarrow> condition" where
  "combine_and left right = (case left of CAnd conditions \<Rightarrow> CAnd (conditions @ [right]) | _ \<Rightarrow> CAnd [left, right])"

definition combine_or :: "condition \<Rightarrow> condition \<Rightarrow> condition" where
  "combine_or left right = (case left of COr conditions \<Rightarrow> COr (conditions @ [right]) | _ \<Rightarrow> COr [left, right])"

text \<open>
  The recursion runs on fuel. \<open>sub\<close> is the parser of the expression inside a parenthesis, which
  is \<open>parse_or_expression\<close> with less fuel; \<open>parse_fuel\<close> is enough for every input. Beyond fuel,
  the stack of the program bounds the nesting.
\<close>

type_synonym condition_parser = "parser \<Rightarrow> parse_error + condition \<times> parser"

definition parse_primary :: "condition_parser \<Rightarrow> parse_env \<Rightarrow> condition_parser" where
  "parse_primary sub env p =
     (if current_token p = TLeftParen then
        (case try_parse_parenthesized_operand_comparison env p of
           Inr r \<Rightarrow> Inr r
         | Inl _ \<Rightarrow>
             ebind (advance env p) (\<lambda>p1.
             ebind (sub p1) (\<lambda>(c, p2).
             ebind (expect_token env TRightParen p2) (\<lambda>p3. Inr (c, p3)))))
      else parse_test env p)"

fun parse_not_expression :: "nat \<Rightarrow> condition_parser \<Rightarrow> parse_env \<Rightarrow> condition_parser" where
  "parse_not_expression 0 sub env p = Inl OutOfFuel"
| "parse_not_expression (Suc n) sub env p =
     (if current_token p = TNot then
        ebind (advance env p) (\<lambda>p1.
        ebind (parse_not_expression n sub env p1) (\<lambda>(c, p2). Inr (CNot c, p2)))
      else parse_primary sub env p)"

fun and_loop :: "nat \<Rightarrow> condition_parser \<Rightarrow> parse_env \<Rightarrow> condition \<Rightarrow> condition_parser" where
  "and_loop 0 sub env left p = Inl OutOfFuel"
| "and_loop (Suc n) sub env left p =
     (if current_token p = TAnd then
        ebind (advance env p) (\<lambda>p1.
        ebind (parse_not_expression n sub env p1) (\<lambda>(right, p2). and_loop n sub env (combine_and left right) p2))
      else Inr (left, p))"

definition parse_and_expression :: "nat \<Rightarrow> condition_parser \<Rightarrow> parse_env \<Rightarrow> condition_parser" where
  "parse_and_expression n sub env p =
     ebind (parse_not_expression n sub env p) (\<lambda>(left, p1). and_loop n sub env left p1)"

fun or_loop :: "nat \<Rightarrow> condition_parser \<Rightarrow> parse_env \<Rightarrow> condition \<Rightarrow> condition_parser" where
  "or_loop 0 sub env left p = Inl OutOfFuel"
| "or_loop (Suc n) sub env left p =
     (if current_token p = TOr then
        ebind (advance env p) (\<lambda>p1.
        ebind (parse_and_expression n sub env p1) (\<lambda>(right, p2). or_loop n sub env (combine_or left right) p2))
      else Inr (left, p))"

fun parse_or_expression :: "nat \<Rightarrow> parse_env \<Rightarrow> condition_parser" where
  "parse_or_expression 0 env p = Inl OutOfFuel"
| "parse_or_expression (Suc n) env p =
     (let sub = parse_or_expression n env in
      ebind (parse_and_expression n sub env p) (\<lambda>(left, p1). or_loop n sub env left p1))"

definition parse_fuel :: "parser \<Rightarrow> nat" where
  "parse_fuel p = unparsed p + 2"

definition parse_expression :: "parse_env \<Rightarrow> parser \<Rightarrow> parse_error + condition" where
  "parse_expression env p =
     ebind (parse_or_expression (parse_fuel p) env p) (\<lambda>(c, p1).
     if current_token p1 = TEof then Inr c else Inl (TrailingToken (current_token p1)))"

definition parse_condition_expression_with_lookups :: "parse_env \<Rightarrow> string \<Rightarrow> parse_error + condition" where
  "parse_condition_expression_with_lookups env expression =
     ebind (new_parser env expression) (parse_expression env)"

datatype condition_error = InvalidConditionString

definition parse_condition_expression_opt :: "parse_env \<Rightarrow> string option \<Rightarrow> condition_error + condition option" where
  "parse_condition_expression_opt env expression =
     (case expression of
        None \<Rightarrow> Inr None
      | Some e \<Rightarrow> ebind (map_err (\<lambda>_. InvalidConditionString) (parse_condition_expression_with_lookups env e))
                   (\<lambda>c. Inr (Some c)))"

section \<open>Key conditions\<close>

datatype key_type = KeyHash | KeyRange

record key_schema_element =
  attribute_name :: string
  key_type :: key_type

datatype key_condition_error = HashKeyMissing | NotSupported | InvalidOperator | EmptyAnd | MissedKey string

record key_condition_validator =
  hash_key_field :: string
  range_key_field :: "string option"
  hash_equality_seen :: bool
  range_condition_seen :: bool

definition new_validator :: "key_schema_element list \<Rightarrow> key_condition_error + key_condition_validator" where
  "new_validator schema =
     ebind (ok_or HashKeyMissing (map_option attribute_name (find (\<lambda>k. key_type k = KeyHash) schema))) (\<lambda>hash.
     Inr \<lparr>hash_key_field = hash,
          range_key_field = map_option attribute_name (find (\<lambda>k. key_type k = KeyRange) schema),
          hash_equality_seen = False, range_condition_seen = False\<rparr>)"

definition visit_range :: "string \<Rightarrow> key_condition_validator \<Rightarrow> key_condition_error + key_condition_validator" where
  "visit_range field v =
     (if Some field \<noteq> range_key_field v \<or> range_condition_seen v then Inl NotSupported
      else Inr (v\<lparr>range_condition_seen := True\<rparr>))"

fun visit :: "condition \<Rightarrow> key_condition_validator \<Rightarrow> key_condition_error + key_condition_validator"
  and visit_all :: "condition list \<Rightarrow> key_condition_validator \<Rightarrow> key_condition_error + key_condition_validator" where
  "visit (CAnd conditions) v = (if conditions = [] then Inl EmptyAnd else visit_all conditions v)"
| "visit (Equal field value) v =
     (if field = hash_key_field v then
        (if hash_equality_seen v then Inl NotSupported else Inr (v\<lparr>hash_equality_seen := True\<rparr>))
      else visit_range field v)"
| "visit (LessThan field _) v = visit_range field v"
| "visit (LessThanEqual field _) v = visit_range field v"
| "visit (GreaterThan field _) v = visit_range field v"
| "visit (GreaterThanEqual field _) v = visit_range field v"
| "visit (Between field _ _) v = visit_range field v"
| "visit (BeginsWith field _) v = visit_range field v"
| "visit _ v = Inl InvalidOperator"
| "visit_all [] v = Inr v"
| "visit_all (c # cs) v = ebind (visit c v) (visit_all cs)"

definition finish_validation :: "key_condition_validator \<Rightarrow> key_condition_error + unit" where
  "finish_validation v = (if hash_equality_seen v then Inr () else Inl (MissedKey (hash_key_field v)))"

definition validate_key_condition :: "condition \<Rightarrow> key_schema_element list \<Rightarrow> key_condition_error + unit" where
  "validate_key_condition condition schema =
     ebind (new_validator schema) (\<lambda>v. ebind (visit condition v) finish_validation)"

end
