(* ===== verification/Condition_Parser_Sound.thy ===== *)
theory Condition_Parser_Sound
  imports Condition_Parser
begin

text \<open>
  Soundness of the condition parser: every parser consumes input when it succeeds and never fails
  for lack of fuel, so that the parser terminates; and what the validator of key conditions accepts.
\<close>

section \<open>Soundness of a parse step\<close>

text \<open>
  A parse is sound below \<open>k\<close>: it leaves less than \<open>k\<close> unparsed, or fails with an error of the
  language rather than for lack of fuel.
\<close>

definition sound :: "nat \<Rightarrow> parse_error + 'a \<times> parser \<Rightarrow> bool" where
  "sound k r \<longleftrightarrow> (case r of Inl e \<Rightarrow> e \<noteq> OutOfFuel | Inr (_, q) \<Rightarrow> unparsed q < k)"

named_theorems sound_intros

lemma sound_Inl [sound_intros]: "e \<noteq> OutOfFuel \<Longrightarrow> sound k (Inl e)"
  by (simp add: sound_def)

lemma sound_Inr [sound_intros]: "unparsed q < k \<Longrightarrow> sound k (Inr (x, q))"
  by (simp add: sound_def)

lemma sound_bind:
  "sound j m \<Longrightarrow> j \<le> k \<Longrightarrow> (\<And>x q. unparsed q < j \<Longrightarrow> sound k (f (x, q))) \<Longrightarrow> sound k (ebind m f)"
  by (cases m) (auto simp: sound_def)

lemma sound_mono: "sound j r \<Longrightarrow> j \<le> k \<Longrightarrow> sound k r"
  by (auto simp: sound_def split: sum.splits)

lemma sound_if [sound_intros]:
  "(c \<Longrightarrow> sound k a) \<Longrightarrow> (\<not> c \<Longrightarrow> sound k b) \<Longrightarrow> sound k (if c then a else b)"
  by simp

lemma next_token_error: "next_token uc s \<noteq> Inl OutOfFuel"
proof (induction uc s rule: next_token.induct)
  case (1 uc s)
  have str: "read_string_loop q acc t \<noteq> Inl OutOfFuel" for q acc t
  proof (induction q acc t rule: read_string_loop.induct)
    case (1 q acc t)
    then show ?case
      by (subst read_string_loop.simps) (auto simp: Let_def split: option.splits)
  qed
  show ?case
  proof (cases "current_char s")
    case None then show ?thesis by (simp add: next_token.simps [of uc s])
  next
    case (Some ch)
    show ?thesis
    proof (cases "char_is_whitespace uc ch")
      case True
      then show ?thesis using "1.IH" [OF Some refl True] Some by (simp add: next_token.simps [of uc s])
    next
      case False
      then show ?thesis using Some str [of ch "[]" "advance_char s"]
        by (simp add: next_token.simps [of uc s] Let_def split_beta read_string_def ebind_eq_Inl)
    qed
  qed
qed

lemma advance_error: "advance env p \<noteq> Inl OutOfFuel"
  using next_token_error by (auto simp: advance_def ebind_eq_Inl)

lemma sound_advance [sound_intros]:
  "current_token p \<noteq> TEof \<Longrightarrow> (\<And>q. unparsed q < unparsed p \<Longrightarrow> sound k (f q)) \<Longrightarrow> sound k (ebind (advance env p) f)"
  using advance_error [of env p] advance_progress [of env p]
  by (cases "advance env p") (auto simp: sound_def)

lemma sound_expect [sound_intros]:
  "t \<noteq> TEof \<Longrightarrow> (\<And>q. unparsed q < unparsed p \<Longrightarrow> sound k (f q)) \<Longrightarrow> sound k (ebind (expect_token env t p) f)"
  using sound_advance [of p k f env] by (auto simp: expect_token_def sound_def)

lemma sound_ok_or [sound_intros]:
  "e \<noteq> OutOfFuel \<Longrightarrow> (\<And>x. sound k (f x)) \<Longrightarrow> sound k (ebind (ok_or e m) f)"
  by (cases m) (auto simp: ok_or_def sound_def)

lemma sound_segment: "sound (unparsed p) (append_attribute_path_segment env path p)"
  unfolding append_attribute_path_segment_def
  by (cases "current_token p") (auto intro!: sound_intros split: option.splits)

lemma sound_path_loop: "sound (Suc (unparsed p)) (attribute_path_loop env path p)"
proof (induction "unparsed p" arbitrary: path p rule: less_induct)
  case less
  have IH: "sound (Suc (unparsed p)) (attribute_path_loop env path' q)" if "unparsed q < unparsed p" for path' q
    using less [OF that] that sound_mono by (metis less_imp_le Suc_le_mono)
  have num: "sound (Suc (unparsed p)) (case current_token p1 of
      TNumber index \<Rightarrow> ebind (advance env p1) (\<lambda>p2. ebind (expect_token env TRightBracket p2)
        (\<lambda>p3. attribute_path_loop env (path @ ''['' @ index @ '']'') p3))
    | other \<Rightarrow> Inl (ExpectedIndex other))" if "unparsed p1 < unparsed p" for p1
    using that by (cases "current_token p1") (auto intro!: sound_intros IH)
  have seg: "sound (Suc (unparsed p)) (ebind (append_attribute_path_segment env (path @ ''.'') p1)
      (\<lambda>(path, p2). attribute_path_loop env path p2))" if "unparsed p1 < unparsed p" for p1
    using that by (intro sound_bind [OF sound_segment]) (auto intro: IH)
  show ?case
    by (subst attribute_path_loop.simps) (intro sound_intros num seg; simp)
qed

lemma sound_path: "sound (unparsed p) (parse_attribute_path env p)"
proof -
  have "sound (unparsed p) (attribute_path_loop env path q)" if "unparsed q < unparsed p" for path q
    using that sound_path_loop sound_mono Suc_leI by blast
  then show ?thesis unfolding parse_attribute_path_def
    by (cases "current_token p") (auto intro!: sound_intros split: option.splits)
qed

lemma sound_attribute_value: "sound (unparsed p) (parse_attribute_value env p)"
proof (induction "unparsed p" arbitrary: p rule: less_induct)
  case less
  show ?case
  proof (cases "current_token p")
    case TLeftParen
    have "sound (unparsed p) (ebind (parse_attribute_value env p1) (\<lambda>(value, p2).
        ebind (expect_token env TRightParen p2) (\<lambda>p3. Inr (value, p3))))" if "unparsed p1 < unparsed p" for p1
      using that by (intro sound_bind [OF less]) (auto intro!: sound_intros)
    then show ?thesis by (simp add: TLeftParen parse_attribute_value.simps [of env p] sound_intros)
  qed (auto simp: parse_attribute_value.simps [of env p] intro!: sound_intros split: option.splits)
qed

lemma sound_value: "sound (unparsed p) (parse_value env p)"
proof (induction "unparsed p" arbitrary: p rule: less_induct)
  case less
  show ?case
  proof (cases "current_token p")
    case TLeftParen
    have "sound (unparsed p) (ebind (parse_value env p1) (\<lambda>(value, p2).
        ebind (expect_token env TRightParen p2) (\<lambda>p3. Inr (value, p3))))" if "unparsed p1 < unparsed p" for p1
      using that by (intro sound_bind [OF less]) (auto intro!: sound_intros)
    then show ?thesis by (simp add: TLeftParen parse_value.simps [of env p] sound_intros)
  qed (auto simp: parse_value.simps [of env p] intro!: sound_intros split: option.splits)
qed

lemma sound_path_bind [sound_intros]:
  "unparsed p \<le> k \<Longrightarrow> (\<And>x q. unparsed q < unparsed p \<Longrightarrow> sound k (f (x, q))) \<Longrightarrow> sound k (ebind (parse_attribute_path env p) f)"
  by (rule sound_bind [OF sound_path])

lemma sound_attribute_value_bind [sound_intros]:
  "unparsed p \<le> k \<Longrightarrow> (\<And>x q. unparsed q < unparsed p \<Longrightarrow> sound k (f (x, q))) \<Longrightarrow> sound k (ebind (parse_attribute_value env p) f)"
  by (rule sound_bind [OF sound_attribute_value])

lemma sound_value_bind [sound_intros]:
  "unparsed p \<le> k \<Longrightarrow> (\<And>x q. unparsed q < unparsed p \<Longrightarrow> sound k (f (x, q))) \<Longrightarrow> sound k (ebind (parse_value env p) f)"
  by (rule sound_bind [OF sound_value])

lemma sound_value_list: "sound (unparsed p) (value_list_loop env vals p)"
proof (induction "unparsed p" arbitrary: vals p rule: less_induct)
  case less
  have "sound (unparsed p) (value_list_loop env vals q)" if "unparsed q < unparsed p" for vals q
    using less [OF that] that sound_mono less_imp_le by blast
  then show ?case by (subst value_list_loop.simps) (auto intro!: sound_intros)
qed

lemma sound_in_list: "sound (Suc (unparsed p)) (in_list_loop env vals p)"
proof (induction "unparsed p" arbitrary: vals p rule: less_induct)
  case less
  have "sound (Suc (unparsed p)) (in_list_loop env vals q)" if "unparsed q < unparsed p" for vals q
    using less [OF that] that sound_mono less_imp_le Suc_le_mono by metis
  then show ?case by (subst in_list_loop.simps) (auto intro!: sound_intros)
qed

lemma sound_size: "sound (unparsed p) (parse_size_comparison env field p)"
  unfolding parse_size_comparison_def
  by (cases "current_token p") (auto simp: size_operator_def intro!: sound_intros)

lemma sound_parse_in_list: "sound (unparsed p) (parse_in_list env field p)"
proof (cases "current_token p")
  case (TAttributeValue name)
  have "sound (unparsed p) (ebind (in_list_loop env [v] p1) (\<lambda>(vals, p2).
      ebind (expect_token env TRightParen p2) (\<lambda>p3. Inr (InValues field vals, p3))))"
    if "unparsed p1 < unparsed p" for v p1
    using that by (intro sound_bind [OF sound_in_list]) (auto intro!: sound_intros)
  then show ?thesis unfolding parse_in_list_def TAttributeValue
    by (auto simp: TAttributeValue intro!: sound_intros split: option.splits)
qed (auto simp: parse_in_list_def parse_value_list_def intro!: sound_intros sound_bind [OF sound_value_list])

lemma sound_comparison: "sound (unparsed p) (parse_comparison env field p)"
proof (cases "current_token p")
  case TIn
  have "sound (unparsed p) (parse_in_list env field q)" if "unparsed q < unparsed p" for q
    using sound_parse_in_list that sound_mono less_imp_le by blast
  then show ?thesis by (auto simp: parse_comparison_def TIn intro!: sound_intros)
qed (auto simp: parse_comparison_def intro!: sound_intros)

lemma sound_value_left: "sound (unparsed p) (parse_value_left_comparison_from_value env v p)"
  unfolding parse_value_left_comparison_from_value_def
  by (cases "current_token p") (auto intro!: sound_intros)

lemma sound_below:
  "(\<And>q. sound (unparsed q) (f q)) \<Longrightarrow> unparsed p < k \<Longrightarrow> sound k (f p)"
  using sound_mono less_imp_le by blast

lemma sound_parenthesized: "sound (unparsed p) (try_parse_parenthesized_operand_comparison env p)"
  unfolding try_parse_parenthesized_operand_comparison_def
  by (auto intro!: sound_intros sound_below [OF sound_value_left] sound_below [OF sound_comparison])

lemma sound_function_field: "sound (unparsed p) (parse_function_field env p) \<or> current_token p = TEof"
  unfolding parse_function_field_def
  by (auto intro!: sound_intros sound_below [OF sound_path])

lemma sound_function_field_bind [sound_intros]:
  "current_token p \<noteq> TEof \<Longrightarrow> (\<And>x q. unparsed q < unparsed p \<Longrightarrow> sound k (f (x, q))) \<Longrightarrow> unparsed p \<le> k \<Longrightarrow>
   sound k (ebind (parse_function_field env p) f)"
  using sound_function_field sound_bind by metis

lemma sound_same_path [sound_intros]:
  "(\<And>b. sound k (f b)) \<Longrightarrow> sound k (ebind (next_token_starts_same_path env field p) f)"
  unfolding next_token_starts_same_path_def
  by (cases "current_token p") (auto intro!: sound_intros split: option.splits)

lemma sound_attribute_type [sound_intros]:
  "(\<And>s. sound k (f s)) \<Longrightarrow> sound k (case v of S s \<Rightarrow> f s | _ \<Rightarrow> Inl AttributeTypeOperand)"
  by (cases v) (auto intro: sound_intros)

lemma sound_test: "sound (unparsed p) (parse_test env p)"
  unfolding parse_test_def parse_value_left_comparison_def
  by (cases "current_token p")
    (auto intro!: sound_intros sound_below [OF sound_size] sound_below [OF sound_comparison]
      sound_below [OF sound_value_left])

section \<open>Enough fuel\<close>

lemma sound_primary:
  assumes "\<And>q. unparsed q < unparsed p \<Longrightarrow> sound (unparsed q) (sub q)"
  shows "sound (unparsed p) (parse_primary sub env p)"
proof (cases "current_token p = TLeftParen")
  case True
  have "sound (unparsed p) (ebind (sub p1) (\<lambda>(c, p2). ebind (expect_token env TRightParen p2) (\<lambda>p3. Inr (c, p3))))"
    if "unparsed p1 < unparsed p" for p1
    using that by (intro sound_bind [OF assms]) (auto intro!: sound_intros)
  then have "sound (unparsed p) (ebind (advance env p) (\<lambda>p1. ebind (sub p1)
      (\<lambda>(c, p2). ebind (expect_token env TRightParen p2) (\<lambda>p3. Inr (c, p3)))))"
    using True by (intro sound_intros) auto
  then show ?thesis using True sound_parenthesized [of p env]
    by (auto simp: parse_primary_def sound_def split: sum.splits)
qed (simp add: parse_primary_def sound_test)

lemma sound_not:
  assumes "\<And>q. unparsed q < k \<Longrightarrow> sound (unparsed q) (sub q)"
  shows "unparsed p < n \<Longrightarrow> unparsed p \<le> k \<Longrightarrow> sound (unparsed p) (parse_not_expression n sub env p)"
proof (induction n arbitrary: p)
  case (Suc n)
  have "sound (unparsed p) (ebind (parse_not_expression n sub env p1) (\<lambda>(c, p2). Inr (CNot c, p2)))"
    if "unparsed p1 < unparsed p" for p1
    using that Suc by (intro sound_bind [OF Suc.IH]) (auto intro!: sound_intros)
  moreover have "sound (unparsed p) (parse_primary sub env p)"
    using assms Suc.prems by (intro sound_primary) simp
  ultimately show ?case by (auto intro!: sound_intros)
qed simp

lemma sound_and_loop:
  assumes "\<And>q. unparsed q < k \<Longrightarrow> sound (unparsed q) (sub q)"
  shows "unparsed p < n \<Longrightarrow> unparsed p \<le> k \<Longrightarrow> sound (Suc (unparsed p)) (and_loop n sub env left p)"
proof (induction n arbitrary: p left)
  case (Suc n)
  have "sound (Suc (unparsed p)) (ebind (parse_not_expression n sub env p1)
      (\<lambda>(right, p2). and_loop n sub env (combine_and left right) p2))" if u: "unparsed p1 < unparsed p" for p1
  proof (rule sound_bind [OF sound_not [OF assms]])
    show "sound (Suc (unparsed p)) (case (x, q) of (right, p2) \<Rightarrow> and_loop n sub env (combine_and left right) p2)"
      if "unparsed q < unparsed p1" for x q
      unfolding prod.case by (rule sound_mono [OF Suc.IH]) (use that u Suc.prems in auto)
  qed (use u Suc.prems in auto)
  then show ?case by (auto intro!: sound_intros)
qed simp

lemma sound_and:
  assumes "\<And>q. unparsed q < k \<Longrightarrow> sound (unparsed q) (sub q)" "unparsed p < n" "unparsed p \<le> k"
  shows "sound (unparsed p) (parse_and_expression n sub env p)"
  unfolding parse_and_expression_def
proof (rule sound_bind [OF sound_not [OF assms]])
  show "sound (unparsed p) (case (x, q) of (left, p1) \<Rightarrow> and_loop n sub env left p1)"
    if "unparsed q < unparsed p" for x q
    unfolding prod.case by (rule sound_mono [OF sound_and_loop [OF assms(1)]]) (use that assms(2,3) in auto)
qed auto

lemma sound_or_loop:
  assumes "\<And>q. unparsed q < k \<Longrightarrow> sound (unparsed q) (sub q)"
  shows "unparsed p < n \<Longrightarrow> unparsed p \<le> k \<Longrightarrow> sound (Suc (unparsed p)) (or_loop n sub env left p)"
proof (induction n arbitrary: p left)
  case (Suc n)
  have "sound (Suc (unparsed p)) (ebind (parse_and_expression n sub env p1)
      (\<lambda>(right, p2). or_loop n sub env (combine_or left right) p2))" if u: "unparsed p1 < unparsed p" for p1
  proof (rule sound_bind [OF sound_and [OF assms]])
    show "sound (Suc (unparsed p)) (case (x, q) of (right, p2) \<Rightarrow> or_loop n sub env (combine_or left right) p2)"
      if "unparsed q < unparsed p1" for x q
      unfolding prod.case by (rule sound_mono [OF Suc.IH]) (use that u Suc.prems in auto)
  qed (use u Suc.prems in auto)
  then show ?case by (auto intro!: sound_intros)
qed simp

lemma sound_or: "unparsed p + 2 \<le> n \<Longrightarrow> sound (unparsed p) (parse_or_expression n env p)"
proof (induction n arbitrary: p)
  case (Suc n)
  let ?sub = "parse_or_expression n env"
  have sub: "sound (unparsed q) (?sub q)" if "unparsed q < unparsed p" for q
    using Suc.IH [of q] that Suc.prems by simp
  have "sound (unparsed p) (or_loop n ?sub env left q)" if "unparsed q < unparsed p" for left q
    by (rule sound_mono [OF sound_or_loop [OF sub]]) (use that Suc.prems in auto)
  then have "sound (unparsed p) (ebind (parse_and_expression n ?sub env p) (\<lambda>(left, p1). or_loop n ?sub env left p1))"
    by (intro sound_bind [OF sound_and [OF sub]]) (use Suc.prems in auto)
  then show ?case by (simp add: Let_def)
qed simp

section \<open>Key conditions\<close>

fun key_leaves :: "condition \<Rightarrow> condition list" where
  "key_leaves (CAnd cs) = concat (map key_leaves cs)"
| "key_leaves c = [c]"

fun no_empty_and :: "condition \<Rightarrow> bool" where
  "no_empty_and (CAnd cs) \<longleftrightarrow> cs \<noteq> [] \<and> list_all no_empty_and cs"
| "no_empty_and c \<longleftrightarrow> True"

definition range_field :: "condition \<Rightarrow> string option" where
  "range_field c =
     (case c of Equal field _ \<Rightarrow> Some field | LessThan field _ \<Rightarrow> Some field | LessThanEqual field _ \<Rightarrow> Some field
      | GreaterThan field _ \<Rightarrow> Some field | GreaterThanEqual field _ \<Rightarrow> Some field
      | Between field _ _ \<Rightarrow> Some field | BeginsWith field _ \<Rightarrow> Some field | _ \<Rightarrow> None)"

definition hash_leaf :: "string \<Rightarrow> condition \<Rightarrow> bool" where
  "hash_leaf hash c \<longleftrightarrow> (case c of Equal field _ \<Rightarrow> field = hash | _ \<Rightarrow> False)"

text \<open>
  The rule of key conditions: an equality on the hash key, and at most one test on the range key,
  by one of the operators that a key condition may use.
\<close>

definition key_rule :: "string \<Rightarrow> string option \<Rightarrow> condition list \<Rightarrow> bool" where
  "key_rule hash range_key leaves \<longleftrightarrow>
     length (filter (hash_leaf hash) leaves) = 1
     \<and> length (filter (\<lambda>c. \<not> hash_leaf hash c) leaves) \<le> 1
     \<and> list_all (\<lambda>c. hash_leaf hash c \<or> range_field c \<noteq> None \<and> range_field c = range_key) leaves"

lemma visit_all_append:
  "visit_all (cs @ ds) v = ebind (visit_all cs v) (visit_all ds)"
  by (induction cs arbitrary: v) (auto simp: ebind_def split: sum.splits)

lemma visit_leaves:
  "visit c v = Inr w \<longleftrightarrow> no_empty_and c \<and> visit_all (key_leaves c) v = Inr w"
proof (induction c arbitrary: v w)
  case (CAnd cs)
  have "visit_all cs v = Inr w \<longleftrightarrow> list_all no_empty_and cs \<and> visit_all (concat (map key_leaves cs)) v = Inr w" for v w
    using CAnd.IH by (induction cs arbitrary: v) (auto simp: visit_all_append result_simps)
  then show ?case by auto
qed (simp_all add: result_simps)

lemma visit_leaf:
  assumes "\<forall>cs. c \<noteq> CAnd cs"
  shows "visit c v = (if hash_leaf (hash_key_field v) c then
      (if hash_equality_seen v then Inl NotSupported else Inr (v\<lparr>hash_equality_seen := True\<rparr>))
    else case range_field c of Some field \<Rightarrow> visit_range field v | None \<Rightarrow> Inl InvalidOperator)"
  using assms by (cases c) (simp_all add: hash_leaf_def range_field_def)

lemma key_leaves_leaf: "c \<in> set (key_leaves d) \<Longrightarrow> c \<noteq> CAnd cs"
  by (induction d) auto

lemma visit_all_leaves:
  assumes "\<forall>c\<in>set ls. \<forall>cs. c \<noteq> CAnd cs"
  shows "(\<exists>w. visit_all ls v = Inr w \<and> hash_equality_seen w) \<longleftrightarrow>
    length (filter (hash_leaf (hash_key_field v)) ls) + (if hash_equality_seen v then 1 else 0) = 1
    \<and> length (filter (\<lambda>c. \<not> hash_leaf (hash_key_field v) c) ls) + (if range_condition_seen v then 1 else 0) \<le> 1
    \<and> list_all (\<lambda>c. hash_leaf (hash_key_field v) c \<or> range_field c \<noteq> None \<and> range_field c = range_key_field v) ls"
  using assms
proof (induction ls arbitrary: v)
  case Nil then show ?case by simp
next
  case (Cons c ls)
  have c: "\<forall>cs. c \<noteq> CAnd cs" using Cons.prems by auto
  show ?case
  proof (cases "hash_leaf (hash_key_field v) c")
    case True
    then show ?thesis using Cons by (auto simp: visit_leaf [OF c])
  next
    case False
    then show ?thesis using Cons
      by (auto simp: visit_leaf [OF c] visit_range_def split: option.splits)
  qed
qed

lemma validate_rule:
  assumes "find (\<lambda>k. key_type k = KeyHash) schema = Some h"
  shows "validate_key_condition c schema = Inr () \<longleftrightarrow> no_empty_and c
    \<and> key_rule (attribute_name h) (map_option attribute_name (find (\<lambda>k. key_type k = KeyRange) schema)) (key_leaves c)"
proof -
  let ?r = "map_option attribute_name (find (\<lambda>k. key_type k = KeyRange) schema)"
  let ?v = "\<lparr>hash_key_field = attribute_name h, range_key_field = ?r,
      hash_equality_seen = False, range_condition_seen = False\<rparr>"
  have "validate_key_condition c schema = Inr () \<longleftrightarrow> (\<exists>w. visit c ?v = Inr w \<and> hash_equality_seen w)"
    using assms by (auto simp: validate_key_condition_def new_validator_def ok_or_def finish_validation_def result_simps
        split: if_splits)
  also have "\<dots> \<longleftrightarrow> no_empty_and c \<and> (\<exists>w. visit_all (key_leaves c) ?v = Inr w \<and> hash_equality_seen w)"
    by (auto simp: visit_leaves)
  also have "\<dots> \<longleftrightarrow> no_empty_and c \<and> key_rule (attribute_name h) ?r (key_leaves c)"
    using visit_all_leaves [of "key_leaves c" ?v] key_leaves_leaf by (simp add: key_rule_def)
  finally show ?thesis .
qed

section \<open>Properties\<close>

text \<open>
  C23: The condition parser always comes to an end by itself: on every expression, for all names
  and values, it returns a condition or one of the errors of the language; the fuel of the model
  never runs out.
\<close>

theorem parser_terminates:
  "parse_condition_expression_with_lookups env expression \<noteq> Inl OutOfFuel"
proof -
  have "new_parser env expression \<noteq> Inl OutOfFuel"
    using next_token_error by (auto simp: new_parser_def ebind_eq_Inl)
  moreover have "parse_expression env p \<noteq> Inl OutOfFuel" for p
    using sound_or [of p "parse_fuel p" env]
    by (auto simp: parse_expression_def parse_fuel_def sound_def ebind_eq_Inl split: if_splits)
  ultimately show ?thesis by (auto simp: parse_condition_expression_with_lookups_def ebind_eq_Inl)
qed

text \<open>
  C24: A key condition is accepted exactly when the conjunction, however it is nested, holds one
  equality on the hash key and at most one other test, on the range key and by an operator allowed
  in key conditions, and no conjunction is empty.
\<close>

theorem key_condition_accepted_iff:
  assumes "find (\<lambda>k. key_type k = KeyHash) schema = Some h"
  shows "validate_key_condition c schema = Inr () \<longleftrightarrow> no_empty_and c
    \<and> key_rule (attribute_name h) (map_option attribute_name (find (\<lambda>k. key_type k = KeyRange) schema)) (key_leaves c)"
  by (rule validate_rule [OF assms])

theorem key_condition_accepted_iff_witness:
  "let schema = [\<lparr>attribute_name = ''pk'', key_type = KeyHash\<rparr>, \<lparr>attribute_name = ''sk'', key_type = KeyRange\<rparr>];
       c = CAnd [CAnd [BeginsWith ''sk'' (S ''x'')], Equal ''pk'' (S ''k'')] in
   validate_key_condition c schema = Inr () \<longleftrightarrow> no_empty_and c \<and> key_rule ''pk'' (Some ''sk'') (key_leaves c)"
  unfolding Let_def
  by (subst key_condition_accepted_iff [where h = "\<lparr>attribute_name = ''pk'', key_type = KeyHash\<rparr>"]) simp_all

end
