(* ===== verification/Condition_Printing.thy ===== *)
theory Condition_Printing
  imports Condition_Parser_Sound
begin

text \<open>
Writing tokens back as text. Tokens separated by spaces are read back by the lexer as the same
tokens, so the parser can be run on a list of tokens: \<open>parser_at\<close> is the parser in front of the
text of a token list, and \<open>advance\<close> takes it to the next token.
\<close>

section \<open>Printing tokens\<close>

definition ident_char :: "char \<Rightarrow> bool" where
  "ident_char c \<longleftrightarrow> is_ascii_letter c \<or> is_ascii_digit c \<or> c = CHR ''_''"

definition number_char :: "char \<Rightarrow> bool" where
  "number_char c \<longleftrightarrow> is_ascii_digit c \<or> c = CHR ''.'' \<or> c = CHR ''-'' \<or> c = CHR ''+''"

text \<open>Inside a quoted string, double quotes and backslashes are escaped.\<close>

definition quoted_char :: "char \<Rightarrow> string" where
  "quoted_char c = (if c = CHR 0x22 \<or> c = CHR 0x5C then [CHR 0x5C, c] else [c])"

fun token_text :: "token \<Rightarrow> string" where
  "token_text (TIdentifier i) = i"
| "token_text (TAttributeName n) = n"
| "token_text (TAttributeValue n) = n"
| "token_text (TNumber n) = n"
| "token_text (TString s) = CHR 0x22 # concat (map quoted_char s) @ [CHR 0x22]"
| "token_text TEqual = ''=''"
| "token_text TNotEqual = ''<>''"
| "token_text TLessThan = ''<''"
| "token_text TLessThanEqual = ''<=''"
| "token_text TGreaterThan = ''>''"
| "token_text TGreaterThanEqual = ''>=''"
| "token_text TAnd = ''AND''"
| "token_text TOr = ''OR''"
| "token_text TNot = ''NOT''"
| "token_text TBetween = ''BETWEEN''"
| "token_text TIn = ''IN''"
| "token_text TAttributeExists = ''attribute_exists''"
| "token_text TAttributeNotExists = ''attribute_not_exists''"
| "token_text TAttributeType = ''attribute_type''"
| "token_text TBeginsWith = ''begins_with''"
| "token_text TContains = ''contains''"
| "token_text TSize = ''size''"
| "token_text TLeftParen = ''(''"
| "token_text TRightParen = '')''"
| "token_text TLeftBracket = ''[''"
| "token_text TRightBracket = '']''"
| "token_text TComma = '',''"
| "token_text TDot = ''.''"
| "token_text TEof = []"

text \<open>Tokens that are written in ASCII.\<close>

fun plain_token :: "token \<Rightarrow> bool" where
  "plain_token (TIdentifier i) \<longleftrightarrow> i \<noteq> [] \<and> is_ascii_letter (hd i) \<and> list_all ident_char i
     \<and> identifier_token i = TIdentifier i"
| "plain_token (TAttributeName n) \<longleftrightarrow> n \<noteq> [] \<and> hd n = CHR ''#'' \<and> list_all ident_char (tl n)"
| "plain_token (TAttributeValue n) \<longleftrightarrow> n \<noteq> [] \<and> hd n = CHR '':'' \<and> list_all ident_char (tl n)"
| "plain_token (TNumber n) \<longleftrightarrow> n \<noteq> [] \<and> (is_ascii_digit (hd n) \<or> hd n = CHR ''-'') \<and> list_all number_char n"
| "plain_token (TString s) \<longleftrightarrow> list_all (\<lambda>c. (of_char c :: nat) < 128) s"
| "plain_token TEof \<longleftrightarrow> False"
| "plain_token t \<longleftrightarrow> True"

lemma ident_char_ascii: "ident_char c \<Longrightarrow> (of_char c :: nat) < 128"
  by (auto simp: ident_char_def is_ascii_letter_def is_ascii_digit_def)

lemma number_char_ascii: "number_char c \<Longrightarrow> (of_char c :: nat) < 128"
  by (auto simp: number_char_def is_ascii_digit_def)

lemma ascii_step:
  "(of_char c :: nat) < 128 \<Longrightarrow> current_char (c # s) = Some [c]"
  "(of_char c :: nat) < 128 \<Longrightarrow> advance_char (c # s) = s"
  by (simp_all add: current_char_def advance_char_def utf8_len_def)

lemma read_while_ascii:
  assumes "\<And>c. c \<in> set xs \<Longrightarrow> (of_char c :: nat) < 128 \<and> test [c]" "\<not> test '' ''"
  shows "read_while test (xs @ CHR '' '' # s) = (xs, CHR '' '' # s)"
  using assms(1)
proof (induction xs)
  case Nil then show ?case using assms(2) by (simp add: read_while.simps [of test] ascii_step)
next
  case (Cons x xs)
  then have "read_while test (xs @ CHR '' '' # s) = (xs, CHR '' '' # s)" "(of_char x :: nat) < 128" "test [x]" by auto
  then show ?case by (simp add: read_while.simps [of test "x # xs @ CHR '' '' # s"] ascii_step)
qed

lemma ident_test:
  "ident_char c \<Longrightarrow> char_is_alphanumeric uc [c] \<or> [c] = ''_''"
  using ident_char_ascii [of c] by (auto simp: char_is_alphanumeric_def ident_char_def)

lemma read_identifier_plain:
  assumes "list_all ident_char xs"
  shows "read_identifier_slice uc (xs @ CHR '' '' # s) = (xs, CHR '' '' # s)"
  unfolding read_identifier_slice_def
  by (rule read_while_ascii)
    (use assms ident_test ident_char_ascii in \<open>auto simp: list_all_iff char_is_alphanumeric_def is_ascii_letter_def
      is_ascii_digit_def\<close>)

lemma read_number_plain:
  assumes "list_all number_char xs"
  shows "read_number (xs @ CHR '' '' # s) = (xs, CHR '' '' # s)"
  unfolding read_number_def
  by (rule read_while_ascii)
    (use assms number_char_ascii in \<open>auto simp: list_all_iff number_char_def is_ascii_digit_def\<close>)

lemma whitespace_ascii:
  "(of_char c :: nat) < 128 \<Longrightarrow>
   char_is_whitespace uc [c] \<longleftrightarrow> (of_char c :: nat) = 32 \<or> 9 \<le> (of_char c :: nat) \<and> (of_char c :: nat) \<le> 13"
  by (simp add: char_is_whitespace_def)

lemma next_token_skip: "next_token uc (skip_whitespace uc s) = next_token uc s"
proof (cases "current_char s")
  case None then show ?thesis by (simp add: skip_whitespace.simps [of uc s])
next
  case (Some ch)
  then show ?thesis
    by (cases "char_is_whitespace uc ch")
      (simp_all add: next_token.simps [of uc s] skip_whitespace.simps [of uc s])
qed

lemma next_token_space: "next_token uc (CHR '' '' # s) = next_token uc s"
proof -
  have w: "char_is_whitespace uc '' ''" by (simp add: whitespace_ascii)
  have "next_token uc (CHR '' '' # s) = next_token uc (skip_whitespace uc (CHR '' '' # s))"
    by (subst next_token.simps) (simp add: ascii_step w)
  also have "skip_whitespace uc (CHR '' '' # s) = skip_whitespace uc s"
    by (simp add: skip_whitespace.simps [of uc "CHR '' '' # s"] ascii_step w)
  finally show ?thesis by (simp add: next_token_skip)
qed

lemma lex_word:
  assumes "is_ascii_letter c" "list_all ident_char (c # cs)"
  shows "next_token uc (c # cs @ CHR '' '' # s) = Inr (identifier_token (c # cs), CHR '' '' # s)"
proof -
  have a: "(of_char c :: nat) < 128" using assms(1) by (auto simp: is_ascii_letter_def)
  have l: "65 \<le> (of_char c :: nat) \<and> (of_char c :: nat) \<le> 90 \<or> 97 \<le> (of_char c :: nat) \<and> (of_char c :: nat) \<le> 122"
    using assms(1) by (simp add: is_ascii_letter_def)
  have n: "c \<noteq> d" if "\<not> is_ascii_letter d" for d using assms(1) that by blast
  have "read_identifier_slice uc (c # cs @ CHR '' '' # s) = (c # cs, CHR '' '' # s)"
    using read_identifier_plain [OF assms(2)] by simp
  moreover have "\<not> char_is_whitespace uc [c]" using l a by (auto simp: whitespace_ascii)
  moreover have "char_is_alphabetic uc [c]" "\<not> is_ascii_digit c"
    using assms(1) a l by (auto simp: char_is_alphabetic_def is_ascii_digit_def)
  ultimately show ?thesis
    by (subst next_token.simps) (simp add: ascii_step a n is_ascii_letter_def)
qed

lemma lex_sigil:
  assumes "c = CHR ''#'' \<or> c = CHR '':''" "list_all ident_char cs"
  shows "next_token uc (c # cs @ CHR '' '' # s) =
    Inr (if c = CHR ''#'' then TAttributeName (c # cs) else TAttributeValue (c # cs), CHR '' '' # s)"
  using assms(1) read_identifier_plain [OF assms(2)]
  by (subst next_token.simps) (auto simp: ascii_step whitespace_ascii)

lemma lex_number:
  assumes "is_ascii_digit c \<or> c = CHR ''-''" "list_all number_char (c # cs)"
  shows "next_token uc (c # cs @ CHR '' '' # s) = Inr (TNumber (c # cs), CHR '' '' # s)"
proof -
  have a: "(of_char c :: nat) < 128" using assms(1) by (auto simp: is_ascii_digit_def)
  have n: "c \<noteq> d" if "\<not> is_ascii_digit d" "d \<noteq> CHR ''-''" for d using assms(1) that by blast
  have "\<not> char_is_whitespace uc [c]" using assms(1) a by (auto simp: whitespace_ascii is_ascii_digit_def)
  moreover have "read_number (c # cs @ CHR '' '' # s) = (c # cs, CHR '' '' # s)"
    using read_number_plain [OF assms(2)] by simp
  ultimately show ?thesis using assms(1)
    by (subst next_token.simps) (auto simp: ascii_step a n is_ascii_digit_def)
qed

lemma read_quoted:
  "list_all (\<lambda>c. (of_char c :: nat) < 128) s \<Longrightarrow>
    read_string_loop [CHR 0x22] acc (concat (map quoted_char s) @ CHR 0x22 # rest) = Inr (acc @ s, rest)"
proof (induction s arbitrary: acc)
  case Nil
  then show ?case by (simp add: read_string_loop.simps [of _ acc] ascii_step)
next
  case (Cons c s)
  then show ?case
    by (subst read_string_loop.simps) (simp add: quoted_char_def [of c] ascii_step escape_text_def)
qed

lemma lex_quoted:
  "plain_token (TString v) \<Longrightarrow> next_token uc (token_text (TString v) @ CHR '' '' # s) = Inr (TString v, CHR '' '' # s)"
  by (subst next_token.simps) (simp add: ascii_step whitespace_ascii read_string_def read_quoted)

lemma lex_keyword:
  assumes "w \<noteq> []" "is_ascii_letter (hd w)" "list_all ident_char w"
  shows "next_token uc (w @ CHR '' '' # s) = Inr (identifier_token w, CHR '' '' # s)"
  using lex_word [of "hd w" "tl w" uc s] assms by (cases w) simp_all

definition keyword_tokens :: "token list" where
  "keyword_tokens = [TAnd, TOr, TNot, TBetween, TIn, TAttributeExists, TAttributeNotExists,
     TAttributeType, TBeginsWith, TContains, TSize]"

lemma keyword_text:
  "list_all (\<lambda>t. token_text t \<noteq> [] \<and> is_ascii_letter (hd (token_text t))
     \<and> list_all ident_char (token_text t) \<and> identifier_token (token_text t) = t) keyword_tokens"
  by (simp add: keyword_tokens_def is_ascii_letter_def ident_char_def identifier_token_def
    eq_ignore_ascii_case_def to_ascii_lower_def)

lemma lex_words:
  "t \<in> set keyword_tokens \<Longrightarrow> next_token uc (token_text t @ CHR '' '' # s) = Inr (t, CHR '' '' # s)"
  using keyword_text lex_keyword [of "token_text t" uc s] by (auto simp: list_all_iff)

lemma lex_signs:
  "next_token uc (''='' @ CHR '' '' # s) = Inr (TEqual, CHR '' '' # s)"
  "next_token uc (''<>'' @ CHR '' '' # s) = Inr (TNotEqual, CHR '' '' # s)"
  "next_token uc (''<'' @ CHR '' '' # s) = Inr (TLessThan, CHR '' '' # s)"
  "next_token uc (''<='' @ CHR '' '' # s) = Inr (TLessThanEqual, CHR '' '' # s)"
  "next_token uc (''>'' @ CHR '' '' # s) = Inr (TGreaterThan, CHR '' '' # s)"
  "next_token uc (''>='' @ CHR '' '' # s) = Inr (TGreaterThanEqual, CHR '' '' # s)"
  "next_token uc (''('' @ CHR '' '' # s) = Inr (TLeftParen, CHR '' '' # s)"
  "next_token uc ('')'' @ CHR '' '' # s) = Inr (TRightParen, CHR '' '' # s)"
  "next_token uc ('','' @ CHR '' '' # s) = Inr (TComma, CHR '' '' # s)"
  "next_token uc (''.'' @ CHR '' '' # s) = Inr (TDot, CHR '' '' # s)"
  "next_token uc (''['' @ CHR '' '' # s) = Inr (TLeftBracket, CHR '' '' # s)"
  "next_token uc ('']'' @ CHR '' '' # s) = Inr (TRightBracket, CHR '' '' # s)"
  by ((subst next_token.simps, simp add: ascii_step whitespace_ascii)+)

lemma lex_plain:
  assumes "plain_token t"
  shows "next_token uc (token_text t @ CHR '' '' # s) = Inr (t, CHR '' '' # s)"
proof (cases "t \<in> set keyword_tokens")
  case True
  then show ?thesis by (rule lex_words)
next
  case False
  show ?thesis
  proof (cases t)
    case (TIdentifier i)
    then show ?thesis using assms lex_word [of "hd i" "tl i" uc s] by (cases i) simp_all
  next
    case (TAttributeName n)
    then show ?thesis using assms lex_sigil [of "hd n" "tl n" uc s] by (cases n) auto
  next
    case (TAttributeValue n)
    then show ?thesis using assms lex_sigil [of "hd n" "tl n" uc s] by (cases n) auto
  next
    case (TNumber n)
    then show ?thesis using assms lex_number [of "hd n" "tl n" uc s] by (cases n) auto
  next
    case (TString v)
    then show ?thesis using assms lex_quoted by blast
  qed (use False assms lex_signs [of uc s] in \<open>simp_all add: keyword_tokens_def\<close>)
qed

definition spaced :: "token list \<Rightarrow> string" where
  "spaced ts = concat (map (\<lambda>t. token_text t @ '' '') ts)"

text \<open>The parser in front of a list of printed tokens.\<close>

definition parser_at :: "token list \<Rightarrow> parser" where
  "parser_at ts = (case ts of [] \<Rightarrow> Parser TEof [] | t # ts' \<Rightarrow> Parser t (CHR '' '' # spaced ts'))"

lemma current_at [simp]: "current_token (parser_at []) = TEof" "current_token (parser_at (t # ts)) = t"
  by (simp_all add: parser_at_def)

lemma lex_spaced:
  assumes "list_all plain_token ts"
  shows "next_token uc (spaced ts) = Inr (current_token (parser_at ts), unread (parser_at ts))"
proof (cases ts)
  case Nil
  then show ?thesis by (simp add: spaced_def parser_at_def next_token.simps [of uc "[]"] current_char_def)
next
  case (Cons t ts')
  then show ?thesis using lex_plain [of t uc "spaced ts'"] assms by (simp add: spaced_def parser_at_def)
qed

lemma advance_at [simp]:
  "list_all plain_token ts \<Longrightarrow> advance env (parser_at (t # ts)) = Inr (parser_at ts)"
  by (simp add: advance_def parser_at_def [of "t # ts"] next_token_space lex_spaced)

lemma expect_at [simp]:
  "list_all plain_token ts \<Longrightarrow> expect_token env t (parser_at (t # ts)) = Inr (parser_at ts)"
  by (simp add: expect_token_def)

lemma new_parser_at: "list_all plain_token ts \<Longrightarrow> new_parser env (spaced ts) = Inr (parser_at ts)"
  by (simp add: new_parser_def lex_spaced)

end
