(* ===== verification/Condition_Round_Trip.thy ===== *)
theory Condition_Round_Trip
  imports Condition_Printing
begin

text \<open>
Condition expressions as trees, their text with the parentheses that the precedence of the
connectives asks for, and the proof that parsing the text gives back the meaning of the tree. Each
of the four parsing functions is described on printed trees by one predicate (\<open>reads_primary\<close>,
\<open>reads_not\<close>, \<open>reads_and\<close>, \<open>reads_or\<close>); the induction goes round the four levels.
\<close>

section \<open>Paths and operands\<close>













text \<open>A value: a placeholder, a number, a quoted string, or a value in parentheses.\<close>

datatype operand = Placeholder string | Number string | Quoted string | Wrapped operand

fun operand_tokens :: "operand \<Rightarrow> token list" where
  "operand_tokens (Placeholder n) = [TAttributeValue n]"
| "operand_tokens (Number n) = [TNumber n]"
| "operand_tokens (Quoted s) = [TString s]"
| "operand_tokens (Wrapped v) = TLeftParen # operand_tokens v @ [TRightParen]"























section \<open>Comparisons\<close>























section \<open>Tests\<close>













lemma operand_not_path [simp]:
  "next_token_starts_same_path env field (parser_at (operand_tokens v @ ts)) = Inr False"
  by (cases v) (simp_all add: next_token_starts_same_path_def)





section \<open>Expressions\<close>











section \<open>Reading an expression back\<close>

text \<open>The tokens that may follow an expression at each level.\<close>

definition follows_and :: "token list \<Rightarrow> bool" where
  "follows_and ts \<longleftrightarrow> (case ts of [] \<Rightarrow> True | t # _ \<Rightarrow> t \<in> {TAnd, TOr, TRightParen})"

definition follows_or :: "token list \<Rightarrow> bool" where
  "follows_or ts \<longleftrightarrow> (case ts of [] \<Rightarrow> True | t # _ \<Rightarrow> t \<in> {TOr, TRightParen})"

lemma follows_simps [simp]:
  "follows_and (TAnd # ts)" "follows_and (TOr # ts)" "follows_and (TRightParen # ts)" "follows_and []"
  "follows_or (TOr # ts)" "follows_or (TRightParen # ts)" "follows_or []"
  by (simp_all add: follows_and_def follows_or_def)



































section \<open>Tests that are rejected\<close>












end
