(* ===== verification/Update_Path.thy ===== *)
theory Update_Path
  imports Value_Meaning "HOL-Library.Sublist"
begin

text \<open>
Document paths of update expressions (update_logic/path.rs): resolving aliases, parsing a path,
reading, setting and removing the value at a path. The lookup theorems say what every path reads
after a set or a removal; the well-formedness lemmas say that items stay items.
\<close>

section \<open>Errors of the update path\<close>

datatype update_error =
    NamesRequired string
  | NameMissing string
  | AliasPunctuation
  | InvalidDocumentPath string
  | InvalidSetPath
  | SetNeedsAttribute
  | PathInvalidForUpdate
  | MissingAttribute
  | OperandType
  | NumberOverflow
  | NumberUnderflow
  | ArithmeticPanic
  | InvalidAddNumber string
  | FunctionArity string
  | InvalidNumberLiteral
  | UnsupportedLiteral string
  | InvalidValueExpression string
  | ValuesRequired string
  | ValueMissing string
  | NotScalar
  | SetAtEnd
  | InvalidOperation string
  | FunctionNotSupported string
  | UnknownOperation string
  | EmptyAddOperand string
  | AddOperandKind string string

type_synonym names = "(string \<times> string) list"

section \<open>Aliases in document paths\<close>

definition path_stop :: "char \<Rightarrow> bool" where
  "path_stop c \<longleftrightarrow> c = CHR ''.'' \<or> c = CHR ''[''"

function resolve_path_aliases :: "names \<Rightarrow> string \<Rightarrow> string \<Rightarrow> update_error + string" where
  "resolve_path_aliases names [] resolved = Inr resolved"
| "resolve_path_aliases names (c # path) resolved =
     (if c \<noteq> CHR ''#'' then resolve_path_aliases names path (resolved @ [c])
      else
        let placeholder = c # takeWhile (\<lambda>d. \<not> path_stop d) path in
        case vec_map_get names placeholder of
          None \<Rightarrow> Inl (NameMissing placeholder)
        | Some value \<Rightarrow>
            if list_ex (\<lambda>d. d = CHR ''.'' \<or> d = CHR ''['' \<or> d = CHR '']'') value then Inl AliasPunctuation
            else resolve_path_aliases names (dropWhile (\<lambda>d. \<not> path_stop d) path) (resolved @ value))"
  by pat_completeness auto
termination
  by (relation "measure (\<lambda>(_, path, _). length path)")
    (auto simp: le_imp_less_Suc length_dropWhile_le)

definition resolve_document_path :: "string \<Rightarrow> names option \<Rightarrow> update_error + string" where
  "resolve_document_path path names =
     (if CHR ''#'' \<notin> set path then Inr path
      else case names of
             None \<Rightarrow> Inl (NamesRequired path)
           | Some ns \<Rightarrow> resolve_path_aliases ns path [])"

section \<open>Parsed paths\<close>

datatype update_path_segment = Name string | Index nat

definition is_top_level_path :: "string \<Rightarrow> bool" where
  "is_top_level_path field \<longleftrightarrow> \<not> list_ex path_stop field"

definition push_name :: "string \<Rightarrow> update_path_segment list \<Rightarrow> update_path_segment list" where
  "push_name current segments = (if current = [] then segments else segments @ [Name current])"

text \<open>
  The loop of \<open>parse_update_path\<close>: the characters left, the segments found, the name being read
  and whether the last segment was an index. An index runs to the next bracket or to the end.
\<close>

function parse_update_path_loop :: "string \<Rightarrow> string \<Rightarrow> update_path_segment list \<Rightarrow> string \<Rightarrow> bool
    \<Rightarrow> update_error + update_path_segment list" where
  "parse_update_path_loop path [] segments current after_index =
     (let segments = push_name current segments in
      if segments = [] then Inl (InvalidDocumentPath path) else Inr segments)"
| "parse_update_path_loop path (c # chars) segments current after_index =
     (if c = CHR ''.'' then
        if current = [] \<and> \<not> after_index then Inl (InvalidDocumentPath path)
        else parse_update_path_loop path chars (push_name current segments) [] False
      else if c = CHR ''['' then
        case parse_usize (takeWhile (\<lambda>d. d \<noteq> CHR '']'') chars) of
          None \<Rightarrow> Inl (InvalidDocumentPath path)
        | Some index \<Rightarrow>
            parse_update_path_loop path (tl (dropWhile (\<lambda>d. d \<noteq> CHR '']'') chars))
              (push_name current segments @ [Index index]) [] True
      else parse_update_path_loop path chars segments (current @ [c]) False)"
  by pat_completeness auto
termination
  by (relation "measure (\<lambda>(_, chars, _). length chars)")
    (auto simp: le_imp_less_Suc length_dropWhile_le diff_le_self le_trans [OF diff_le_self])

definition parse_update_path :: "string \<Rightarrow> update_error + update_path_segment list" where
  "parse_update_path path = parse_update_path_loop path path [] [] False"

section \<open>Reading, setting and removing\<close>

definition update_step :: "update_path_segment \<Rightarrow> attribute_value \<Rightarrow> attribute_value option" where
  "update_step segment value =
     (case segment of
        Name name \<Rightarrow> (case value of M m \<Rightarrow> vec_map_get m name | _ \<Rightarrow> None)
      | Index index \<Rightarrow> (case value of L xs \<Rightarrow> (if index < length xs then Some (xs ! index) else None) | _ \<Rightarrow> None))"

fun update_walk :: "update_path_segment list \<Rightarrow> attribute_value \<Rightarrow> attribute_value option" where
  "update_walk [] value = Some value"
| "update_walk (segment # rest) value = Option.bind (update_step segment value) (update_walk rest)"

fun update_get_path_value :: "attribute_map \<Rightarrow> update_path_segment list \<Rightarrow> attribute_value option" where
  "update_get_path_value item [] = None"
| "update_get_path_value item (Index _ # rest) = None"
| "update_get_path_value item (Name name # rest) = Option.bind (attribute_map_get item name) (update_walk rest)"

definition get_attribute_value :: "attribute_map \<Rightarrow> string \<Rightarrow> attribute_value option" where
  "get_attribute_value item field =
     (if is_top_level_path field then attribute_map_get item field
      else case parse_update_path field of Inl _ \<Rightarrow> None | Inr path \<Rightarrow> update_get_path_value item path)"

text \<open>A failing call leaves the value it was given unchanged.\<close>

fun set_nested_path_value :: "attribute_value \<Rightarrow> update_path_segment list \<Rightarrow> attribute_value
    \<Rightarrow> update_error + attribute_value" where
  "set_nested_path_value current [] value = Inl InvalidSetPath"
| "set_nested_path_value current [segment] value =
     (case segment of
        Name name \<Rightarrow> (case current of M m \<Rightarrow> Inr (M (fst (vec_map_insert m name value))) | _ \<Rightarrow> Inl PathInvalidForUpdate)
      | Index index \<Rightarrow>
          (case current of
             L xs \<Rightarrow> Inr (L (if length xs \<le> index then xs @ [value] else xs[index := value]))
           | _ \<Rightarrow> Inl PathInvalidForUpdate))"
| "set_nested_path_value current (segment # s # rest) value =
     (case segment of
        Name name \<Rightarrow>
          (case current of
             M m \<Rightarrow>
               ebind (ok_or PathInvalidForUpdate (vec_map_get m name)) (\<lambda>next.
               ebind (set_nested_path_value next (s # rest) value) (\<lambda>next.
               Inr (M (fst (vec_map_insert m name next)))))
           | _ \<Rightarrow> Inl PathInvalidForUpdate)
      | Index index \<Rightarrow>
          (case current of
             L xs \<Rightarrow>
               if length xs \<le> index then Inl PathInvalidForUpdate
               else ebind (set_nested_path_value (xs ! index) (s # rest) value) (\<lambda>next. Inr (L (xs[index := next])))
           | _ \<Rightarrow> Inl PathInvalidForUpdate))"

text \<open>
  The operations on an item give their result and the item they leave, also when they fail: the
  root is taken out of the item and put back, which moves it to the end.
\<close>

fun set_path_value :: "attribute_map \<Rightarrow> update_path_segment list \<Rightarrow> attribute_value
    \<Rightarrow> (update_error + unit) \<times> attribute_map" where
  "set_path_value item [] value = (Inl InvalidSetPath, item)"
| "set_path_value item (Index _ # rest) value = (Inl SetNeedsAttribute, item)"
| "set_path_value item (Name name # rest) value =
     (if rest = [] then (Inr (), attribute_map_insert item name value)
      else case attribute_map_remove item name of
             (item, None) \<Rightarrow> (Inl PathInvalidForUpdate, item)
           | (item, Some root_value) \<Rightarrow>
               (case set_nested_path_value root_value rest value of
                  Inl e \<Rightarrow> (Inl e, attribute_map_insert item name root_value)
                | Inr root_value \<Rightarrow> (Inr (), attribute_map_insert item name root_value)))"

definition set_attribute_value :: "attribute_map \<Rightarrow> string \<Rightarrow> attribute_value
    \<Rightarrow> (update_error + unit) \<times> attribute_map" where
  "set_attribute_value item field value =
     (if is_top_level_path field then (Inr (), attribute_map_insert item field value)
      else case parse_update_path field of
             Inl e \<Rightarrow> (Inl e, item)
           | Inr path \<Rightarrow> set_path_value item path value)"

definition remove_missing_path_result :: "update_path_segment list \<Rightarrow> update_error + unit" where
  "remove_missing_path_result rest = (if rest = [] then Inr () else Inl PathInvalidForUpdate)"

definition remove_at :: "nat \<Rightarrow> 'a list \<Rightarrow> 'a list" where
  "remove_at index xs = take index xs @ drop (Suc index) xs"

fun remove_nested_path_value :: "attribute_value \<Rightarrow> update_path_segment list \<Rightarrow> (update_error + unit) \<times> attribute_value" where
  "remove_nested_path_value current [] = (Inr (), current)"
| "remove_nested_path_value current [segment] =
     (Inr (),
      case segment of
        Name name \<Rightarrow> (case current of M m \<Rightarrow> M (fst (vec_map_remove m name)) | _ \<Rightarrow> current)
      | Index index \<Rightarrow> (case current of L xs \<Rightarrow> (if index < length xs then L (remove_at index xs) else current) | _ \<Rightarrow> current))"
| "remove_nested_path_value current (segment # s # rest) =
     (case segment of
        Name name \<Rightarrow>
          (case current of
             M m \<Rightarrow>
               (case vec_map_get m name of
                  None \<Rightarrow> (remove_missing_path_result (s # rest), current)
                | Some next \<Rightarrow>
                    let (result, next) = remove_nested_path_value next (s # rest) in
                    (result, M (fst (vec_map_insert m name next))))
           | _ \<Rightarrow> (Inl PathInvalidForUpdate, current))
      | Index index \<Rightarrow>
          (case current of
             L xs \<Rightarrow>
               if length xs \<le> index then (remove_missing_path_result (s # rest), current)
               else
                 let (result, next) = remove_nested_path_value (xs ! index) (s # rest) in
                 (result, L (xs[index := next]))
           | _ \<Rightarrow> (Inl PathInvalidForUpdate, current)))"

fun remove_path_value :: "attribute_map \<Rightarrow> update_path_segment list \<Rightarrow> (update_error + unit) \<times> attribute_map" where
  "remove_path_value item [] = (Inr (), item)"
| "remove_path_value item (Index _ # rest) = (Inr (), item)"
| "remove_path_value item (Name name # rest) =
     (if rest = [] then (Inr (), fst (attribute_map_remove item name))
      else case attribute_map_remove item name of
             (item, None) \<Rightarrow> (remove_missing_path_result rest, item)
           | (item, Some root_value) \<Rightarrow>
               let (result, root_value) = remove_nested_path_value root_value rest in
               (result, attribute_map_insert item name root_value))"

definition remove_attribute_value :: "attribute_map \<Rightarrow> string \<Rightarrow> (update_error + unit) \<times> attribute_map" where
  "remove_attribute_value item field =
     (if is_top_level_path field then (Inr (), fst (attribute_map_remove item field))
      else case parse_update_path field of
             Inl e \<Rightarrow> (Inl e, item)
           | Inr path \<Rightarrow> remove_path_value item path)"

section \<open>Lookups after an update\<close>

text \<open>The path of a field: a name without punctuation is a path of one segment.\<close>

definition field_path :: "string \<Rightarrow> update_error + update_path_segment list" where
  "field_path field = (if is_top_level_path field then Inr [Name field] else parse_update_path field)"

lemma update_walk_Nil [simp]: "update_walk [] = Some"
  by (rule ext) simp

lemma get_attribute_value_path:
  "get_attribute_value item field =
     (case field_path field of Inl _ \<Rightarrow> None | Inr path \<Rightarrow> update_get_path_value item path)"
  by (simp add: get_attribute_value_def field_path_def)

lemma set_attribute_value_path:
  "set_attribute_value item field v =
     (case field_path field of Inl e \<Rightarrow> (Inl e, item) | Inr path \<Rightarrow> set_path_value item path v)"
  by (simp add: set_attribute_value_def field_path_def)

lemma remove_attribute_value_path:
  "remove_attribute_value item field =
     (case field_path field of Inl e \<Rightarrow> (Inl e, item) | Inr path \<Rightarrow> remove_path_value item path)"
  by (simp add: remove_attribute_value_def field_path_def)

lemma update_walk_append: "update_walk (p @ q) v = Option.bind (update_walk p v) (update_walk q)"
  by (induction p arbitrary: v) (simp_all, metis Option.bind_assoc)

text \<open>
  Where a value set at a path can be found: an index past the end of a list is where the list
  ended.
\<close>

fun landing :: "attribute_value \<Rightarrow> update_path_segment list \<Rightarrow> update_path_segment list" where
  "landing current [] = []"
| "landing current [segment] =
     (case segment of
        Index i \<Rightarrow> (case current of L xs \<Rightarrow> [Index (min i (length xs))] | _ \<Rightarrow> [segment])
      | Name _ \<Rightarrow> [segment])"
| "landing current (segment # s # rest) =
     segment # (case update_step segment current of None \<Rightarrow> s # rest | Some v \<Rightarrow> landing v (s # rest))"

definition item_landing :: "attribute_map \<Rightarrow> update_path_segment list \<Rightarrow> update_path_segment list" where
  "item_landing item path =
     (case path of
        Name name # rest \<Rightarrow>
          Name name # (case attribute_map_get item name of None \<Rightarrow> rest | Some v \<Rightarrow> landing v rest)
      | _ \<Rightarrow> path)"

lemma update_step_simps [simp]:
  "update_step (Name name) (M m) = vec_map_get m name"
  "update_step (Index i) (L xs) = (if i < length xs then Some (xs ! i) else None)"
  by (simp_all add: update_step_def)

lemma step_M_insert:
  "update_step s (M (fst (vec_map_insert m name v))) =
     (if s = Name name then Some v else update_step s (M m))"
  by (cases s) (auto simp: update_step_def vec_map.get_insert)

lemma step_L_update:
  "i < length xs \<Longrightarrow> update_step s (L (xs[i := v])) = (if s = Index i then Some v else update_step s (L xs))"
  by (cases s) (auto simp: update_step_def nth_list_update)

lemma step_L_push:
  "update_step s (L (xs @ [v])) = (if s = Index (length xs) then Some v else update_step s (L xs))"
  by (cases s) (auto simp: update_step_def nth_append)

lemmas step_simps = step_M_insert step_L_update step_L_push

lemma landing_ne: "path \<noteq> [] \<Longrightarrow> landing v path \<noteq> []"
  by (induction v path rule: landing.induct) (auto split: update_path_segment.splits attribute_value.splits)

text \<open>A path that starts apart from \<open>p\<close> is not on the way to it, nor beyond it.\<close>

definition apart :: "'a list \<Rightarrow> 'a list \<Rightarrow> bool" where
  "apart p q \<longleftrightarrow> \<not> prefix p q \<and> \<not> prefix q p"

lemma apart_Cons [simp]: "apart (a # p) (b # q) \<longleftrightarrow> a \<noteq> b \<or> apart p q"
  by (auto simp: apart_def)

lemma apart_Nil [simp]: "\<not> apart [] q" "\<not> apart p []"
  by (simp_all add: apart_def)

text \<open>Each call changes one step of the value it works on.\<close>

lemma set_nested_last:
  assumes "set_nested_path_value current [segment] v = Inr current'"
  obtains target where "landing current [segment] = [target]"
    "\<And>t. update_step t current' = (if t = target then Some v else update_step t current)"
proof (cases segment)
  case (Name name)
  then show thesis using assms that by (auto simp: step_M_insert split: attribute_value.splits)
next
  case (Index i)
  with assms obtain xs where "current = L xs" by (auto split: attribute_value.splits)
  with Index assms that show thesis
    by (cases "i < length xs") (auto simp: step_L_update step_L_push min_def)
qed

lemma set_nested_more:
  assumes "set_nested_path_value current (segment # s # rest) v = Inr current'"
  obtains old new where "update_step segment current = Some old"
    "set_nested_path_value old (s # rest) v = Inr new"
    "\<And>t. update_step t current' = (if t = segment then Some new else update_step t current)"
proof (cases segment)
  case (Name name)
  with assms obtain m old new where "current = M m" "vec_map_get m name = Some old"
    "set_nested_path_value old (s # rest) v = Inr new" "current' = M (fst (vec_map_insert m name new))"
    by (auto simp: result_simps split: attribute_value.splits)
  with Name show thesis by (intro that [of old new]) (auto simp: step_M_insert)
next
  case (Index i)
  with assms obtain xs new where "current = L xs" "i < length xs"
    "set_nested_path_value (xs ! i) (s # rest) v = Inr new" "current' = L (xs[i := new])"
    by (auto simp: result_simps split: attribute_value.splits if_splits)
  with Index show thesis
    by (intro that [of "xs ! i" new]) (auto simp: step_L_update)
qed

lemma set_nested_lookup:
  assumes "set_nested_path_value current path v = Inr current'"
  shows "update_walk (landing current path @ r) current' = update_walk r v \<and>
    (apart (landing current path) q \<longrightarrow> update_walk q current' = update_walk q current)"
  using assms
proof (induction path arbitrary: current current' q)
  case (Cons segment path)
  show ?case
  proof (cases path)
    case Nil
    with Cons.prems obtain target where "landing current [segment] = [target]"
      "\<And>t. update_step t current' = (if t = target then Some v else update_step t current)"
      using set_nested_last by metis
    with Nil show ?thesis by (cases q) auto
  next
    case (Cons s rest)
    with Cons.prems obtain old new where o: "update_step segment current = Some old"
      "set_nested_path_value old path v = Inr new"
      "\<And>t. update_step t current' = (if t = segment then Some new else update_step t current)"
      using set_nested_more [of current segment s rest v current'] by metis
    show ?thesis using Cons.IH [OF o(2)] o(1,3) Cons by (cases q) auto
  qed
qed simp

lemma attribute_map_take:
  "keys_distinct item \<Longrightarrow> attribute_map_remove item name = (rest, found) \<Longrightarrow>
    attribute_map_get item name = found \<and> keys_distinct rest \<and>
    (\<forall>k. attribute_map_get rest k = (if k = name then None else attribute_map_get item k))"
  using attr_map.remove_value [of item name] attr_map.get_remove [of item name] attr_map.inv_remove [of item name]
  by simp

lemma set_path_lookup:
  assumes "keys_distinct item" "set_path_value item path v = (Inr (), item')"
  shows "update_get_path_value item' (item_landing item path @ r) = update_walk r v \<and>
    (apart (item_landing item path) q \<longrightarrow> update_get_path_value item' q = update_get_path_value item q)"
proof -
  obtain name rest where path: "path = Name name # rest"
    using assms(2) by (cases "(item, path, v)" rule: set_path_value.cases) auto
  show ?thesis
  proof (cases "rest = []")
    case True
    then have "item' = attribute_map_insert item name v" using assms(2) path by simp
    then show ?thesis using True path
      by (cases "(item', q)" rule: update_get_path_value.cases)
        (auto simp: item_landing_def attr_map.get_insert split: option.split)
  next
    case False
    with assms(2) path obtain removed old new where n: "attribute_map_remove item name = (removed, Some old)"
      "set_nested_path_value old rest v = Inr new" "item' = attribute_map_insert removed name new"
      by (auto split: prod.splits option.splits sum.splits)
    note t = attribute_map_take [OF assms(1) n(1)]
    show ?thesis using t n(3) path set_nested_lookup [OF n(2)]
      by (cases "(item', q)" rule: update_get_path_value.cases)
        (auto simp: item_landing_def attr_map.get_insert)
  qed
qed

text \<open>A failed call does not change what any path reads.\<close>

lemma set_path_failed:
  assumes "keys_distinct item" "set_path_value item path v = (Inl e, item')"
  shows "attribute_map_get item' k = attribute_map_get item k"
proof (cases "(item, path, v)" rule: set_path_value.cases)
  case (3 it name rest w)
  with assms show ?thesis
    using attribute_map_take [OF assms(1), of name]
    by (cases "k = name") (auto simp: attr_map.get_insert split: if_splits prod.splits option.splits sum.splits)
qed (use assms in auto)

lemma same_roots_same_paths:
  "(\<And>k. attribute_map_get item' k = attribute_map_get item k) \<Longrightarrow>
    update_get_path_value item' q = update_get_path_value item q"
  by (cases "(item', q)" rule: update_get_path_value.cases) simp_all

section \<open>Lookups after a removal\<close>

text \<open>
  The path that read, before the removal at \<open>p\<close>, what \<open>q\<close> reads after it: nothing for a removed
  name, and one index further for the elements behind a removed one.
\<close>

fun read_before :: "update_path_segment list \<Rightarrow> update_path_segment list \<Rightarrow> update_path_segment list option" where
  "read_before [Name n] (t # q) = (if t = Name n then None else Some (t # q))"
| "read_before [Index i] (Index j # q) = Some (Index (if j < i then j else Suc j) # q)"
| "read_before (s # s' # p) (t # q) = (if t = s then map_option ((#) t) (read_before (s' # p) q) else Some (t # q))"
| "read_before _ q = Some q"

lemma remove_at_nth:
  "i < length xs \<Longrightarrow> length (remove_at i xs) = length xs - 1"
  "i < length xs \<Longrightarrow> j < length xs - 1 \<Longrightarrow> remove_at i xs ! j = (if j < i then xs ! j else xs ! Suc j)"
  by (auto simp: remove_at_def nth_append)

lemma remove_nested_lookup:
  assumes "wf_value current" "remove_nested_path_value current path = (Inr (), current')"
    "path \<noteq> []" "\<not> strict_prefix q path"
  shows "update_walk q current' = Option.bind (read_before path q) (\<lambda>q'. update_walk q' current)"
  using assms
proof (induction path arbitrary: current current' q)
  case (Cons segment path)
  obtain t q' where q: "q = t # q'" using Cons.prems(4) by (cases q) auto
  show ?case
  proof (cases path)
    case Nil
    show ?thesis
    proof (cases segment)
      case (Name n)
      then show ?thesis using Cons.prems(1,2) Nil q
        by (cases current; cases t) (auto simp: update_step_def vec_map.get_remove)
    next
      case (Index i)
      then show ?thesis using Cons.prems(2) Nil q
        by (cases current; cases t) (auto simp: update_step_def remove_at_nth)
    qed
  next
    case (Cons s rest)
    show ?thesis
    proof (cases segment)
      case (Name n)
      with Cons Cons.prems(2) obtain m old new where m: "current = M m" "vec_map_get m n = Some old"
        "remove_nested_path_value old path = (Inr (), new)" "current' = M (fst (vec_map_insert m n new))"
        by (auto simp: remove_missing_path_result_def split: attribute_value.splits option.splits prod.splits)
      have "wf_value old" using Cons.prems(1) m by (auto simp: list_all_iff vec_map_get_map_of dest!: map_of_SomeD)
      with Cons.IH [OF _ m(3)] Cons Cons.prems(4) q m Name show ?thesis
        by (cases "t = Name n") (auto simp: step_M_insert map_option_case split: option.split)
    next
      case (Index i)
      with Cons Cons.prems(2) obtain xs new where m: "current = L xs" "i < length xs"
        "remove_nested_path_value (xs ! i) path = (Inr (), new)" "current' = L (xs[i := new])"
        by (auto simp: remove_missing_path_result_def split: attribute_value.splits if_splits prod.splits)
      have "wf_value (xs ! i)" using Cons.prems(1) m by (auto simp: list_all_iff)
      with Cons.IH [OF _ m(3)] Cons Cons.prems(4) q m Index show ?thesis
        by (cases "t = Index i") (auto simp: step_L_update map_option_case split: option.split)
    qed
  qed
qed simp

lemma vec_map_insert_same: "vec_map_get m k = Some v \<Longrightarrow> fst (vec_map_insert m k v) = m"
  by (induction m) (auto simp: vec_map_Cons split: if_splits)

lemma remove_nested_failed:
  "remove_nested_path_value current path = (Inl e, current') \<Longrightarrow> current' = current"
  by (induction current path arbitrary: current' rule: remove_nested_path_value.induct)
    (fastforce simp: vec_map_insert_same split: update_path_segment.splits attribute_value.splits
      option.splits if_splits prod.splits)+

lemma wf_get: "wf_value (M m) \<Longrightarrow> vec_map_get m k = Some v \<Longrightarrow> wf_value v"
  by (auto simp: list_all_iff vec_map_get_map_of dest!: map_of_SomeD)

lemma remove_path_lookup:
  assumes "wf_value (M item)" "remove_path_value item path = (Inr (), item')" "\<not> strict_prefix q path"
  shows "update_get_path_value item' q = Option.bind (read_before path q) (update_get_path_value item)"
proof (cases "(item, path)" rule: remove_path_value.cases)
  case (3 it name rest)
  then have it: "it = item" and path: "path = Name name # rest" by simp_all
  have kd: "keys_distinct item" using assms(1) by simp
  show ?thesis
  proof (cases "rest = []")
    case True
    with assms(2) path have "item' = fst (attribute_map_remove item name)" by simp
    then show ?thesis using True path assms(3) attr_map.get_remove [OF kd]
      by (cases "(item', q)" rule: update_get_path_value.cases) auto
  next
    case False
    with assms(2) path obtain removed old new where n: "attribute_map_remove item name = (removed, Some old)"
      "remove_nested_path_value old rest = (Inr (), new)" "item' = attribute_map_insert removed name new"
      by (auto simp: remove_missing_path_result_def split: prod.splits option.splits)
    note t = attribute_map_take [OF kd n(1)]
    have "wf_value old" using wf_get [OF assms(1), of name old] t by (simp add: attribute_map_get_vec)
    note l = remove_nested_lookup [OF this n(2) False]
    obtain s rest' where rest: "rest = s # rest'" using False by (cases rest) auto
    have other: "read_before path (t # q') = Some (t # q')" if "t \<noteq> Name name" for t q'
      using that path rest by simp
    have same: "read_before path (Name name # q') = map_option ((#) (Name name)) (read_before rest q')" for q'
      using path rest by simp
    show ?thesis
    proof (cases "(item', q)" rule: update_get_path_value.cases)
      case (3 i k q')
      then have q: "q = Name k # q'" by simp
      show ?thesis
      proof (cases "k = name")
        case True
        then have "update_walk q' new = Option.bind (read_before rest q') (\<lambda>r. update_walk r old)"
          using l [of q'] assms(3) q path by simp
        then show ?thesis using True q t n(3) same
          by (simp add: attr_map.get_insert bind_map_option comp_def)
      qed (use q t n(3) other in \<open>simp add: attr_map.get_insert\<close>)
    qed (use assms(3) path other in auto)
  qed
next
  case (1 it)
  then show ?thesis using assms(2) by (cases q) auto
next
  case (2 it i rest)
  then have "item' = item" using assms(2) by simp
  moreover have "update_get_path_value item (Index j # r) = None" for j r by simp
  ultimately show ?thesis using 2
    by (cases "(item, q)" rule: update_get_path_value.cases; cases rest) (auto simp: map_option_case split: option.split)
qed

lemma remove_path_failed:
  assumes "wf_value (M item)" "remove_path_value item path = (Inl e, item')"
  shows "update_get_path_value item' q = update_get_path_value item q"
proof (cases "(item, path)" rule: remove_path_value.cases)
  case (3 it name rest)
  then have path: "path = Name name # rest" by simp
  have kd: "keys_distinct item" using assms(1) by simp
  with assms(2) path consider (missing) removed where "attribute_map_remove item name = (removed, None)" "item' = removed"
    | (nested) removed old new where "attribute_map_remove item name = (removed, Some old)"
      "remove_nested_path_value old rest = (Inl e, new)" "item' = attribute_map_insert removed name new"
    by (auto split: if_splits prod.splits option.splits)
  then show ?thesis
  proof cases
    case missing
    then have "attribute_map_get item' k = attribute_map_get item k" for k
      using attribute_map_take [OF kd missing(1)] by (cases "k = name") auto
    then show ?thesis by (rule same_roots_same_paths)
  next
    case nested
    then show ?thesis using attribute_map_take [OF kd nested(1)] remove_nested_failed [OF nested(2)]
      by (cases "(item', q)" rule: update_get_path_value.cases) (auto simp: attr_map.get_insert)
  qed
qed (use assms in auto)

section \<open>Items stay well formed\<close>

text \<open>
  A predicate on values that holds of a list or a map when it holds of every part of it, and of a map
  only when no name occurs twice. The write operations keep every such predicate.
\<close>

locale value_invariant =
  fixes ok :: "attribute_value \<Rightarrow> bool"
  assumes ok_L: "ok (L xs) \<longleftrightarrow> list_all ok xs"
    and ok_M: "ok (M m) \<longleftrightarrow> keys_distinct m \<and> list_all (\<lambda>(k, v). ok v) m"
begin

lemma ok_get: "ok (M m) \<Longrightarrow> vec_map_get m k = Some v \<Longrightarrow> ok v"
  by (auto simp: ok_M list_all_iff vec_map_get_map_of dest!: map_of_SomeD)

lemma ok_insert: "ok (M m) \<Longrightarrow> ok v \<Longrightarrow> ok (M (fst (vec_map_insert m k v)))"
proof -
  have "list_all (\<lambda>(k, v). ok v) m \<Longrightarrow> ok v \<Longrightarrow>
      list_all (\<lambda>(k, v). ok v) (fst (vec_map_insert m k v))"
    by (induction m) (auto simp: vec_map_Cons)
  then show "ok (M m) \<Longrightarrow> ok v \<Longrightarrow> ok (M (fst (vec_map_insert m k v)))"
    by (simp add: ok_M vec_map.inv_insert)
qed

lemma ok_remove: "ok (M m) \<Longrightarrow> ok (M (fst (vec_map_remove m k)))"
proof -
  have "list_all (\<lambda>(k, v). ok v) m \<Longrightarrow> list_all (\<lambda>(k, v). ok v) (fst (vec_map_remove m k))"
    by (induction m) (auto simp: vec_map_Cons)
  then show "ok (M m) \<Longrightarrow> ok (M (fst (vec_map_remove m k)))"
    by (simp add: ok_M vec_map.inv_remove)
qed

lemma ok_list_update: "ok (L xs) \<Longrightarrow> ok v \<Longrightarrow> ok (L (xs[i := v]))"
  by (auto simp: ok_L list_all_iff dest: set_update_subset_insert [THEN subsetD])

lemma ok_remove_at: "ok (L xs) \<Longrightarrow> ok (L (remove_at i xs))"
  by (auto simp: ok_L list_all_iff remove_at_def dest: in_set_takeD in_set_dropD)

lemma ok_nth: "ok (L xs) \<Longrightarrow> \<not> length xs \<le> i \<Longrightarrow> ok (xs ! i)"
  by (simp add: ok_L list_all_iff)

lemmas ok_intros = ok_insert ok_remove ok_list_update ok_remove_at

lemma set_nested_ok:
  "set_nested_path_value current path v = Inr current' \<Longrightarrow> ok current \<Longrightarrow> ok v \<Longrightarrow> ok current'"
proof (induction current path v arbitrary: current' rule: set_nested_path_value.induct)
  case (2 current segment v)
  have "ok (L xs) \<Longrightarrow> ok (L (xs @ [v]))" for xs using 2(3) by (simp add: ok_L)
  with 2 show ?case
    by (auto intro: ok_intros split: update_path_segment.splits attribute_value.splits if_splits)
next
  case (3 current segment s rest v)
  then show ?case
    by (auto simp: result_simps intro!: ok_intros dest: ok_get ok_nth
      split: update_path_segment.splits attribute_value.splits if_splits)
qed simp

lemma remove_nested_ok:
  "ok current \<Longrightarrow> ok (snd (remove_nested_path_value current path))"
proof (induction current path rule: remove_nested_path_value.induct)
  case (2 current segment)
  then show ?case by (auto intro: ok_intros split: update_path_segment.splits attribute_value.splits)
next
  case (3 current segment s rest)
  show ?case
  proof (cases segment)
    case (Name n)
    then show ?thesis using 3(1) 3(3) ok_get
      by (auto simp: split_beta intro!: ok_insert split: attribute_value.splits option.splits)
  next
    case (Index i)
    then show ?thesis using 3(2) 3(3) ok_nth
      by (auto simp: split_beta intro!: ok_list_update split: attribute_value.splits)
  qed
qed simp

lemma ok_take:
  assumes "ok (M item)" "attribute_map_remove item name = (removed, found)"
  shows "ok (M removed)" "found = Some v \<Longrightarrow> ok v"
  using ok_remove [OF assms(1), of name] ok_get [OF assms(1), of name v] assms(2) vec_map.remove_value [of item name]
  by (simp_all add: attribute_map_remove_vec)

lemma ok_item_insert: "ok (M item) \<Longrightarrow> ok v \<Longrightarrow> ok (M (attribute_map_insert item name v))"
  by (simp add: attribute_map_insert_vec ok_insert)

lemma set_path_ok:
  assumes "ok (M item)" "ok v"
  shows "ok (M (snd (set_path_value item path v)))"
  using assms ok_take [OF assms(1)]
  by (cases "(item, path, v)" rule: set_path_value.cases)
    (auto intro!: ok_item_insert dest: set_nested_ok split: prod.splits option.splits sum.splits)

lemma remove_path_ok:
  assumes "ok (M item)"
  shows "ok (M (snd (remove_path_value item path)))"
proof (cases "(item, path)" rule: remove_path_value.cases)
  case (3 it name rest)
  obtain removed found where r: "attribute_map_remove item name = (removed, found)" by fastforce
  show ?thesis using 3 r ok_take [OF assms r] remove_nested_ok
    by (auto intro!: ok_item_insert simp: split_beta split: option.splits)
qed (use assms in auto)

lemma set_attribute_value_ok:
  "ok (M item) \<Longrightarrow> ok v \<Longrightarrow> ok (M (snd (set_attribute_value item field v)))"
  by (simp add: set_attribute_value_path set_path_ok split: sum.split)

lemma remove_attribute_value_ok:
  "ok (M item) \<Longrightarrow> ok (M (snd (remove_attribute_value item field)))"
  by (simp add: remove_attribute_value_path remove_path_ok split: sum.split)

lemma get_path_ok: "ok (M item) \<Longrightarrow> update_get_path_value item path = Some v \<Longrightarrow> ok v"
proof -
  have walk: "update_walk path w = Some v \<Longrightarrow> ok w \<Longrightarrow> ok v" for path w v
  proof (induction path w rule: update_walk.induct)
    case (2 segment path w)
    then show ?case
      by (auto simp: update_step_def ok_L list_all_iff dest: ok_get
        split: update_path_segment.splits attribute_value.splits if_splits Option.bind_splits)
  qed simp
  show "ok (M item) \<Longrightarrow> update_get_path_value item path = Some v \<Longrightarrow> ok v"
    by (cases "(item, path)" rule: update_get_path_value.cases)
      (auto simp: attribute_map_get_vec dest: ok_get walk split: Option.bind_splits)
qed

lemma get_attribute_value_ok: "ok (M item) \<Longrightarrow> get_attribute_value item field = Some v \<Longrightarrow> ok v"
  by (auto simp: get_attribute_value_def attribute_map_get_vec dest: ok_get get_path_ok split: if_splits sum.splits)

end

interpretation wf_values: value_invariant wf_value
  by unfold_locales simp_all

declare wf_value.simps(5,6) [simp del]

section \<open>Properties\<close>

text \<open>
  C8: Setting a value at a document path: when it succeeds, reading the path (or beyond it) reads
  the new value, where an index past the end of a list means the end of the list, and every path
  that is neither on the way nor beyond reads what it read before; when it fails, no path reads
  anything new.
\<close>

theorem set_attribute_value_lookup:
  assumes "wf_value (M item)"
  shows "case set_attribute_value item field v of
      (Inr _, item') \<Rightarrow>
        (\<exists>path. field_path field = Inr path \<and>
          (\<forall>r. update_get_path_value item' (item_landing item path @ r) = update_walk r v) \<and>
          (\<forall>q. apart (item_landing item path) q \<longrightarrow> update_get_path_value item' q = update_get_path_value item q))
    | (Inl _, item') \<Rightarrow> (\<forall>q. update_get_path_value item' q = update_get_path_value item q)"
proof -
  have kd: "keys_distinct item" using assms by (simp add: wf_value.simps)
  obtain res item' where r: "set_attribute_value item field v = (res, item')" by fastforce
  show ?thesis
  proof (cases res)
    case (Inl e)
    have "attribute_map_get item' k = attribute_map_get item k" for k
      using r Inl set_path_failed [OF kd, of _ v e item' k]
      by (auto simp: set_attribute_value_path split: sum.splits)
    then have "update_get_path_value item' q = update_get_path_value item q" for q
      by (rule same_roots_same_paths)
    then show ?thesis using r Inl by simp
  next
    case (Inr u)
    then obtain path where p: "field_path field = Inr path" "set_path_value item path v = (Inr (), item')"
      using r by (auto simp: set_attribute_value_path split: sum.splits)
    then show ?thesis using r Inr set_path_lookup [OF kd p(2)] by auto
  qed
qed

definition sample_item :: attribute_map where
  "sample_item = [(''a'', M [(''b'', L [S ''1'', S ''2''])]), (''c'', S ''x'')]"

lemma sample_item_wf: "wf_value (M sample_item)"
  by (simp add: sample_item_def wf_value.simps)

theorem set_attribute_value_lookup_witness:
  "case set_attribute_value sample_item ''a.b[7]'' (S ''new'') of
      (Inr _, item') \<Rightarrow> update_get_path_value item' [Name ''a'', Name ''b'', Index 2] = Some (S ''new'')
    | (Inl _, item') \<Rightarrow> False"
proof -
  have f: "field_path ''a.b[7]'' = Inr [Name ''a'', Name ''b'', Index 7]"
    by (simp add: field_path_def is_top_level_path_def path_stop_def parse_update_path_def push_name_def
      parse_usize_def is_ascii_digit_def digit_val_def)
  have l: "item_landing sample_item [Name ''a'', Name ''b'', Index 7] = [Name ''a'', Name ''b'', Index 2]"
    by (simp add: item_landing_def sample_item_def attribute_map_get_def)
  have e: "set_attribute_value sample_item ''a.b[7]'' (S ''new'') =
      (Inr (), [(''c'', S ''x''), (''a'', M [(''b'', L [S ''1'', S ''2'', S ''new''])])])" (is "_ = (_, ?item)")
    by (simp add: set_attribute_value_path f sample_item_def vec_map_Cons)
  have "\<forall>r. update_get_path_value ?item ([Name ''a'', Name ''b'', Index 2] @ r) = update_walk r (S ''new'')"
    using set_attribute_value_lookup [OF sample_item_wf, of "''a.b[7]''" "S ''new''"]
    unfolding e f prod.case sum.case sum.inject by (elim exE conjE, hypsubst, unfold l)
  from spec [OF this, of "[]"] show ?thesis unfolding e by simp
qed

text \<open>
  C31: Removing a document path: when it succeeds, a removed name reads nothing any more, an
  element behind a removed one is read one index earlier, and every other path that does not lead
  to the removed one reads what it read before; when it fails, no path reads anything new.
\<close>

theorem remove_attribute_value_lookup:
  assumes "wf_value (M item)"
  shows "case remove_attribute_value item field of
      (Inr _, item') \<Rightarrow>
        (\<exists>path. field_path field = Inr path \<and>
          (\<forall>q. \<not> strict_prefix q path \<longrightarrow>
            update_get_path_value item' q = Option.bind (read_before path q) (update_get_path_value item)))
    | (Inl _, item') \<Rightarrow> (\<forall>q. update_get_path_value item' q = update_get_path_value item q)"
proof -
  obtain res item' where r: "remove_attribute_value item field = (res, item')" by fastforce
  show ?thesis
  proof (cases res)
    case (Inl e)
    have "update_get_path_value item' q = update_get_path_value item q" for q
      using r Inl remove_path_failed [OF assms, of _ e item' q]
      by (auto simp: remove_attribute_value_path split: sum.splits)
    then show ?thesis using r Inl by simp
  next
    case (Inr u)
    then obtain path where p: "field_path field = Inr path" "remove_path_value item path = (Inr (), item')"
      using r by (auto simp: remove_attribute_value_path split: sum.splits)
    then show ?thesis using r Inr remove_path_lookup [OF assms p(2)] by auto
  qed
qed

theorem remove_attribute_value_lookup_witness:
  "case remove_attribute_value sample_item ''a.b[0]'' of
      (Inr _, item') \<Rightarrow> update_get_path_value item' [Name ''a'', Name ''b'', Index 0] = Some (S ''2'')
    | (Inl _, item') \<Rightarrow> False"
proof -
  have f: "field_path ''a.b[0]'' = Inr [Name ''a'', Name ''b'', Index 0]"
    by (simp add: field_path_def is_top_level_path_def path_stop_def parse_update_path_def push_name_def
      parse_usize_def is_ascii_digit_def digit_val_def)
  have e: "remove_attribute_value sample_item ''a.b[0]'' =
      (Inr (), [(''c'', S ''x''), (''a'', M [(''b'', L [S ''2''])])])" (is "_ = (_, ?item)")
    by (simp add: remove_attribute_value_path f sample_item_def vec_map_Cons remove_at_def)
  have "\<forall>q. \<not> strict_prefix q [Name ''a'', Name ''b'', Index 0] \<longrightarrow>
      update_get_path_value ?item q =
        Option.bind (read_before [Name ''a'', Name ''b'', Index 0] q) (update_get_path_value sample_item)"
    using remove_attribute_value_lookup [OF sample_item_wf, of "''a.b[0]''"]
    unfolding e f prod.case sum.case sum.inject by (elim exE conjE, hypsubst)
  from spec [OF this, of "[Name ''a'', Name ''b'', Index 0]"] show ?thesis
    unfolding e by (simp add: sample_item_def attribute_map_get_def)
qed

section \<open>Writing a path\<close>

fun segment_text :: "update_path_segment \<Rightarrow> string" where
  "segment_text (Name n) = CHR ''.'' # n"
| "segment_text (Index i) = CHR ''['' # string_of_nat i @ '']''"

fun path_text :: "update_path_segment list \<Rightarrow> string" where
  "path_text (Name n # p) = n @ concat (map segment_text p)"
| "path_text p = []"

fun update_segment_ok :: "update_path_segment \<Rightarrow> bool" where
  "update_segment_ok (Name n) \<longleftrightarrow> n \<noteq> [] \<and> \<not> list_ex path_stop n"
| "update_segment_ok (Index i) \<longleftrightarrow> i < 2 ^ 64"

lemma parse_usize_text: "n < 2 ^ 64 \<Longrightarrow> parse_usize (string_of_nat n) = Some n"
proof -
  assume "n < 2 ^ 64"
  obtain c t where s: "string_of_nat n = c # t" using string_of_nat_digits [of n] by (cases "string_of_nat n") auto
  then have "is_ascii_digit c" using string_of_nat_digits [of n] by simp
  then have "c \<noteq> CHR ''+''" by (auto simp: is_ascii_digit_def)
  with s show ?thesis using string_of_nat_digits [of n] \<open>n < 2 ^ 64\<close>
    by (simp add: parse_usize_def del: digs_val_Cons)
qed

lemma path_loop_name:
  "\<not> list_ex path_stop n \<Longrightarrow>
    parse_update_path_loop path (n @ rest) segs current after =
    parse_update_path_loop path rest segs (current @ n) (after \<and> n = [])"
  by (induction n arbitrary: current after) (auto simp: path_stop_def)

lemma path_loop_index:
  assumes "i < 2 ^ 64"
  shows "parse_update_path_loop path (CHR ''['' # string_of_nat i @ CHR '']'' # rest) segs current after =
    parse_update_path_loop path rest (push_name current segs @ [Index i]) [] True"
proof -
  have "\<forall>c\<in>set (string_of_nat i). c \<noteq> CHR '']''"
    using string_of_nat_digits [of i] by (auto simp: list_all_iff is_ascii_digit_def)
  then have "takeWhile (\<lambda>d. d \<noteq> CHR '']'') (string_of_nat i @ CHR '']'' # rest) = string_of_nat i"
    "dropWhile (\<lambda>d. d \<noteq> CHR '']'') (string_of_nat i @ CHR '']'' # rest) = CHR '']'' # rest"
    by (simp_all add: takeWhile_append dropWhile_append)
  then show ?thesis by (simp add: parse_usize_text [OF assms])
qed

lemma path_loop_text:
  assumes "list_all update_segment_ok p" "current = [] \<longrightarrow> segs \<noteq> []" "current = [] \<longrightarrow> after"
  shows "parse_update_path_loop path (concat (map segment_text p)) segs current after = Inr (push_name current segs @ p)"
  using assms
proof (induction p arbitrary: segs current after)
  case Nil then show ?case by (auto simp: push_name_def Let_def)
next
  case (Cons s p)
  show ?case
  proof (cases s)
    case (Name n)
    then have "parse_update_path_loop path (concat (map segment_text (s # p))) segs current after =
      parse_update_path_loop path (concat (map segment_text p)) (push_name current segs) n False"
      using Cons.prems path_loop_name [of n path "concat (map segment_text p)" "push_name current segs" "[]" False] by auto
    with Cons.IH [of n "push_name current segs" False] Cons.prems Name show ?thesis
      by (simp add: push_name_def)
  next
    case (Index i)
    then show ?thesis
      using Cons.IH [of "[]" "push_name current segs @ [Index i]" True] Cons.prems
        path_loop_index [of i path "concat (map segment_text p)"] by (simp add: push_name_def)
  qed
qed

text \<open>
  C32: Writing a path of names and indices and parsing the text gives the path back, when names are
  not empty and hold no dot or bracket and indices fit in 64 bits.
\<close>

theorem parse_update_path_text:
  assumes "update_segment_ok (Name n)" "list_all update_segment_ok p"
  shows "parse_update_path (path_text (Name n # p)) = Inr (Name n # p)"
  using assms path_loop_name [of n _ "concat (map segment_text p)" "[]" "[]" False]
    path_loop_text [OF assms(2), of n "[]" False]
  by (simp add: parse_update_path_def push_name_def)

theorem parse_update_path_text_witness:
  "parse_update_path (path_text [Name ''a'', Index 12, Name ''b'', Index 0]) = Inr [Name ''a'', Index 12, Name ''b'', Index 0]"
  using parse_update_path_text [of "''a''" "[Index 12, Name ''b'', Index 0]"] by (simp add: path_stop_def)

end
