(* ===== verification/Update_Decimal.thy ===== *)
theory Update_Decimal
  imports Update_Path
begin

text \<open>
The decimals of update expressions (\<open>DynamoDecimal\<close> in update_logic/value/mod.rs): parsing,
aligned digit arithmetic, normal form, range check and formatting, and what they denote. The digit
loops compute on the aligned magnitudes (\<open>aligned_val\<close>), and sums and differences are exact where
the comparison of magnitudes is right (\<open>comparable\<close>).
\<close>

section \<open>Decimals\<close>

record dynamo_decimal =
  dd_negative :: bool
  dd_digits :: "nat list"
  dd_scale :: int

definition dd_zero :: dynamo_decimal where
  "dd_zero = \<lparr> dd_negative = False, dd_digits = [0], dd_scale = 0 \<rparr>"

definition dd_is_zero :: "dynamo_decimal \<Rightarrow> bool" where
  "dd_is_zero d \<longleftrightarrow> dd_digits d = [0]"

text \<open>Arithmetic on \<open>i32\<close> panics when it overflows; \<open>as i32\<close> wraps.\<close>

definition i32_checked :: "int \<Rightarrow> update_error + int" where
  "i32_checked n = (if in_i32 n then Inr n else Inl ArithmeticPanic)"

definition as_i32 :: "nat \<Rightarrow> int" where
  "as_i32 n = (int n + 2147483648) mod 4294967296 - 2147483648"

text \<open>\<open>str::parse::<i32>\<close>.\<close>

definition parse_i32 :: "string \<Rightarrow> int option" where
  "parse_i32 s =
     (let (neg, ds) = (case s of
          [] \<Rightarrow> (False, [])
        | c # t \<Rightarrow> if c = CHR ''-'' then (True, t) else if c = CHR ''+'' then (False, t) else (False, s)) in
      if ds \<noteq> [] \<and> all_digits ds
      then let n = (if neg then - int (digs_val ds) else int (digs_val ds)) in checked_i32 n
      else None)"

text \<open>\<open>while digits.len() > 1 && digits.last() == Some(&0)\<close>, on the digits from the last one.\<close>

fun pop_zeros :: "nat list \<Rightarrow> int \<Rightarrow> update_error + nat list \<times> int" where
  "pop_zeros (0 # d # ds) scale = ebind (i32_checked (scale - 1)) (pop_zeros (d # ds))"
| "pop_zeros ds scale = Inr (ds, scale)"

definition dd_normalized :: "dynamo_decimal \<Rightarrow> update_error + dynamo_decimal" where
  "dd_normalized d =
     (let digits = dropWhile (\<lambda>x. x = 0) (dd_digits d) in
      if digits = [] then Inr dd_zero
      else ebind (pop_zeros (rev digits) (dd_scale d)) (\<lambda>(ds, scale).
           Inr (d\<lparr> dd_digits := rev ds, dd_scale := scale \<rparr>)))"

definition validate_range :: "dynamo_decimal \<Rightarrow> update_error + unit" where
  "validate_range d =
     (if dd_is_zero d then Inr ()
      else
        ebind (i32_checked (as_i32 (length (dd_digits d)) - dd_scale d)) (\<lambda>n.
        ebind (i32_checked (n - 1)) (\<lambda>adjusted_exponent.
        if 125 < adjusted_exponent then Inl NumberOverflow
        else if adjusted_exponent < -130 then Inl NumberUnderflow
        else Inr ())))"

definition finish_decimal :: "dynamo_decimal \<Rightarrow> update_error + dynamo_decimal" where
  "finish_decimal d =
     ebind (dd_normalized d) (\<lambda>value.
     ebind (validate_range value) (\<lambda>_. Inr value))"

text \<open>The characters of the mantissa: digits, how many of them after the point, and whether it was seen.\<close>

fun scan_mantissa :: "string \<Rightarrow> nat list \<Rightarrow> int \<Rightarrow> bool \<Rightarrow> update_error + nat list \<times> int" where
  "scan_mantissa [] digits fractional after_decimal = Inr (digits, fractional)"
| "scan_mantissa (ch # chars) digits fractional after_decimal =
     (if is_ascii_digit ch then
        if after_decimal then
          ebind (i32_checked (fractional + 1)) (\<lambda>fractional.
          scan_mantissa chars (digits @ [digit_val ch]) fractional after_decimal)
        else scan_mantissa chars (digits @ [digit_val ch]) fractional after_decimal
      else if ch = CHR ''.'' \<and> \<not> after_decimal then scan_mantissa chars digits fractional True
      else Inl OperandType)"

definition exponent_mark :: "char \<Rightarrow> bool" where
  "exponent_mark c \<longleftrightarrow> c = CHR ''e'' \<or> c = CHR ''E''"

definition parse_decimal :: "string \<Rightarrow> update_error + dynamo_decimal" where
  "parse_decimal value =
     (let mantissa = takeWhile (\<lambda>c. \<not> exponent_mark c) value;
          rest = dropWhile (\<lambda>c. \<not> exponent_mark c) value in
      ebind (case rest of [] \<Rightarrow> Inr 0 | _ # text \<Rightarrow> ok_or OperandType (parse_i32 text)) (\<lambda>exponent.
      let negative = (case mantissa of [] \<Rightarrow> False | c # _ \<Rightarrow> c = CHR ''-'');
          chars = (case mantissa of [] \<Rightarrow> [] | c # t \<Rightarrow> if c = CHR ''-'' \<or> c = CHR ''+'' then t else mantissa) in
      ebind (scan_mantissa chars [] 0 False) (\<lambda>(digits, fractional).
      if digits = [] then Inl OperandType
      else
        ebind (i32_checked (fractional - exponent)) (\<lambda>scale.
        finish_decimal \<lparr> dd_negative = negative, dd_digits = digits, dd_scale = scale \<rparr>))))"

section \<open>Digit arithmetic\<close>

text \<open>The common scale is never below the scale of an operand.\<close>

definition padding :: "dynamo_decimal \<Rightarrow> int \<Rightarrow> nat" where
  "padding value scale = nat (scale - dd_scale value)"

definition aligned_len :: "dynamo_decimal \<Rightarrow> int \<Rightarrow> nat" where
  "aligned_len value scale = length (dd_digits value) + padding value scale"

definition aligned_digit_from_right :: "dynamo_decimal \<Rightarrow> int \<Rightarrow> nat \<Rightarrow> nat" where
  "aligned_digit_from_right value scale index =
     (if aligned_len value scale \<le> index then 0
      else if index < padding value scale then 0
      else dd_digits value ! (length (dd_digits value) - 1 - (index - padding value scale)))"

definition aligned_digit_from_left :: "dynamo_decimal \<Rightarrow> int \<Rightarrow> nat \<Rightarrow> nat" where
  "aligned_digit_from_left value scale index =
     (if index < length (dd_digits value) then dd_digits value ! index else 0)"

fun add_loop :: "(nat \<Rightarrow> nat) \<Rightarrow> (nat \<Rightarrow> nat) \<Rightarrow> nat \<Rightarrow> nat \<Rightarrow> nat \<Rightarrow> nat list" where
  "add_loop lhs rhs index 0 carry = (if 0 < carry then [carry] else [])"
| "add_loop lhs rhs index (Suc n) carry =
     (let sum = lhs index + rhs index + carry in
      sum mod 10 # add_loop lhs rhs (Suc index) n (sum div 10))"

definition add_abs_digits_aligned :: "dynamo_decimal \<Rightarrow> dynamo_decimal \<Rightarrow> int \<Rightarrow> nat list" where
  "add_abs_digits_aligned lhs rhs scale =
     rev (add_loop (aligned_digit_from_right lhs scale) (aligned_digit_from_right rhs scale) 0
       (max (aligned_len lhs scale) (aligned_len rhs scale)) 0)"

fun subtract_loop :: "(nat \<Rightarrow> nat) \<Rightarrow> (nat \<Rightarrow> nat) \<Rightarrow> nat \<Rightarrow> nat \<Rightarrow> int \<Rightarrow> nat list" where
  "subtract_loop lhs rhs index 0 borrow = []"
| "subtract_loop lhs rhs index (Suc n) borrow =
     (let digit = int (lhs index) - borrow - int (rhs index) in
      if digit < 0 then nat (digit + 10) # subtract_loop lhs rhs (Suc index) n 1
      else nat digit # subtract_loop lhs rhs (Suc index) n 0)"

definition subtract_abs_digits_aligned :: "dynamo_decimal \<Rightarrow> dynamo_decimal \<Rightarrow> int \<Rightarrow> nat list" where
  "subtract_abs_digits_aligned lhs rhs scale =
     rev (subtract_loop (aligned_digit_from_right lhs scale)
       (\<lambda>index. if index < aligned_len rhs scale then aligned_digit_from_right rhs scale index else 0) 0
       (aligned_len lhs scale) 0)"

definition first_difference :: "(nat \<Rightarrow> ordering) \<Rightarrow> nat \<Rightarrow> ordering" where
  "first_difference f n = (case find (\<lambda>r. r \<noteq> OEqual) (map f [0..<n]) of None \<Rightarrow> OEqual | Some r \<Rightarrow> r)"

definition compare_abs_digits_aligned :: "dynamo_decimal \<Rightarrow> dynamo_decimal \<Rightarrow> int \<Rightarrow> ordering" where
  "compare_abs_digits_aligned lhs rhs scale =
     then_with (cmp (aligned_len lhs scale) (aligned_len rhs scale))
       (first_difference (\<lambda>index. cmp (aligned_digit_from_left lhs scale index)
          (aligned_digit_from_left rhs scale index)) (aligned_len lhs scale))"

section \<open>Sums and differences\<close>

definition subtract_abs_with_sign :: "dynamo_decimal \<Rightarrow> dynamo_decimal \<Rightarrow> dynamo_decimal" where
  "subtract_abs_with_sign a b =
     (let scale = max (dd_scale a) (dd_scale b) in
      case compare_abs_digits_aligned a b scale of
        OGreater \<Rightarrow> \<lparr> dd_negative = dd_negative a, dd_digits = subtract_abs_digits_aligned a b scale, dd_scale = scale \<rparr>
      | OLess \<Rightarrow> \<lparr> dd_negative = \<not> dd_negative a, dd_digits = subtract_abs_digits_aligned b a scale, dd_scale = scale \<rparr>
      | OEqual \<Rightarrow> dd_zero)"

definition dd_add :: "dynamo_decimal \<Rightarrow> dynamo_decimal \<Rightarrow> update_error + dynamo_decimal" where
  "dd_add a b =
     (let scale = max (dd_scale a) (dd_scale b) in
      finish_decimal
        (if dd_negative a = dd_negative b
         then \<lparr> dd_negative = dd_negative a, dd_digits = add_abs_digits_aligned a b scale, dd_scale = scale \<rparr>
         else subtract_abs_with_sign a b))"

definition dd_subtract :: "dynamo_decimal \<Rightarrow> dynamo_decimal \<Rightarrow> update_error + dynamo_decimal" where
  "dd_subtract a b =
     (let scale = max (dd_scale a) (dd_scale b) in
      finish_decimal
        (if dd_negative a \<noteq> dd_negative b
         then \<lparr> dd_negative = dd_negative a, dd_digits = add_abs_digits_aligned a b scale, dd_scale = scale \<rparr>
         else subtract_abs_with_sign a b))"

definition dd_format :: "dynamo_decimal \<Rightarrow> update_error + string" where
  "dd_format d =
     ebind (validate_range d) (\<lambda>_.
     if dd_is_zero d then Inr ''0''
     else
       let sign = (if dd_negative d then ''-'' else []);
           digits = map digit_char (dd_digits d) in
       if dd_scale d \<le> 0 then Inr (sign @ digits @ replicate (nat (- dd_scale d)) (CHR ''0''))
       else
         let scale = nat (dd_scale d) in
         if scale < length digits
         then let split = length digits - scale in Inr (sign @ take split digits @ ''.'' @ drop split digits)
         else Inr (sign @ ''0.'' @ replicate (scale - length digits) (CHR ''0'') @ digits))"

definition add_arithmetic_numbers :: "string \<Rightarrow> string \<Rightarrow> update_error + string" where
  "add_arithmetic_numbers lhs rhs =
     ebind (parse_decimal lhs) (\<lambda>lhs. ebind (parse_decimal rhs) (\<lambda>rhs. ebind (dd_add lhs rhs) dd_format))"

definition subtract_arithmetic_numbers :: "string \<Rightarrow> string \<Rightarrow> update_error + string" where
  "subtract_arithmetic_numbers lhs rhs =
     ebind (parse_decimal lhs) (\<lambda>lhs. ebind (parse_decimal rhs) (\<lambda>rhs. ebind (dd_subtract lhs rhs) dd_format))"

text \<open>Errors that start with \<open>Number\<close> are kept, the others name the field.\<close>

definition parse_add_number :: "string \<Rightarrow> string \<Rightarrow> update_error + dynamo_decimal" where
  "parse_add_number field value =
     map_err (\<lambda>e. if e = NumberOverflow \<or> e = NumberUnderflow \<or> e = ArithmeticPanic then e else InvalidAddNumber field)
       (parse_decimal value)"

definition add_add_expression_with_rhs :: "string \<Rightarrow> string \<Rightarrow> dynamo_decimal \<Rightarrow> update_error + string" where
  "add_add_expression_with_rhs field lhs rhs =
     ebind (parse_add_number field lhs) (\<lambda>lhs. ebind (dd_add lhs rhs) dd_format)"

definition validate_add_number :: "string \<Rightarrow> string \<Rightarrow> update_error + unit" where
  "validate_add_number field value = ebind (parse_add_number field value) (\<lambda>_. Inr ())"

section \<open>The number a decimal denotes\<close>

definition digits_val :: "nat list \<Rightarrow> nat" where
  "digits_val ds = foldl (\<lambda>a d. 10 * a + d) 0 ds"

definition dval :: "dynamo_decimal \<Rightarrow> rat" where
  "dval d = (if dd_negative d then - 1 else 1) * of_nat (digits_val (dd_digits d)) * 10 powi (- dd_scale d)"

definition digits_ok :: "nat list \<Rightarrow> bool" where
  "digits_ok ds \<longleftrightarrow> list_all (\<lambda>d. d \<le> 9) ds"

lemma digits_val_simps [simp]:
  "digits_val [] = 0" "digits_val (ds @ [d]) = 10 * digits_val ds + d" "digits_val [d] = d"
  by (simp_all add: digits_val_def)

lemma digits_val_Cons: "digits_val (d # ds) = d * 10 ^ length ds + digits_val ds"
  by (induction ds rule: rev_induct) (simp_all add: append_Cons [symmetric] del: append_Cons)

lemma digits_val_chars: "digits_ok ds \<Longrightarrow> digits_val ds = digs_val (map digit_char ds)"
  by (induction ds) (simp_all add: digits_ok_def digits_val_Cons)

lemma digits_val_text: "digits_val (map digit_val s) = digs_val s"
  by (induction s) (simp_all add: digits_val_Cons)

lemma digits_ok_chars: "digits_ok ds \<Longrightarrow> all_digits (map digit_char ds)"
  by (simp add: digits_ok_def list_all_iff is_ascii_digit_char)

lemma digits_val_bound: "digits_ok ds \<Longrightarrow> digits_val ds < 10 ^ length ds"
  using digs_val_bound [OF digits_ok_chars] by (simp add: digits_val_chars)

lemma digits_val_drop_zeros: "digits_val (dropWhile (\<lambda>x. x = 0) ds) = digits_val ds"
  by (induction ds) (simp_all add: digits_val_Cons)

lemma digits_val_zero: "digits_val ds = 0 \<longleftrightarrow> list_all (\<lambda>x. x = 0) ds"
  by (induction ds) (auto simp: digits_val_Cons)

lemma digits_val_lower: "ds \<noteq> [] \<Longrightarrow> hd ds \<noteq> 0 \<Longrightarrow> 10 ^ (length ds - 1) \<le> digits_val ds"
  by (cases ds) (auto simp: digits_val_Cons intro: trans_le_add1)

text \<open>The digit at a position from the right.\<close>

lemma digits_val_nth:
  "digits_ok ds \<Longrightarrow> j < length ds \<Longrightarrow> digits_val ds div 10 ^ j mod 10 = ds ! (length ds - 1 - j)"
proof (induction ds arbitrary: j rule: rev_induct)
  case (snoc d ds)
  then have d: "d < 10" "digits_ok ds" by (auto simp: digits_ok_def)
  show ?case
  proof (cases j)
    case 0
    then show ?thesis using d by (simp add: nth_append)
  next
    case (Suc k)
    then have "digits_val (ds @ [d]) div 10 ^ j = digits_val ds div 10 ^ k"
      using d(1) by (simp add: div_mult2_eq)
    moreover have "length ds - Suc k < length ds" using snoc.prems(2) Suc by auto
    ultimately show ?thesis using snoc.IH [OF d(2), of k] snoc.prems(2) Suc
      by (simp add: nth_append)
  qed
qed simp

definition aligned_val :: "dynamo_decimal \<Rightarrow> int \<Rightarrow> nat" where
  "aligned_val d scale = digits_val (dd_digits d) * 10 ^ padding d scale"

lemma aligned_val_bound: "digits_ok (dd_digits d) \<Longrightarrow> aligned_val d scale < 10 ^ aligned_len d scale"
  using digits_val_bound [of "dd_digits d"] by (simp add: aligned_val_def aligned_len_def power_add)

lemma aligned_digit:
  assumes "digits_ok (dd_digits d)"
  shows "aligned_digit_from_right d scale i = aligned_val d scale div 10 ^ i mod 10"
proof -
  let ?p = "padding d scale" and ?n = "length (dd_digits d)"
  consider "aligned_len d scale \<le> i" | "i < ?p" | "?p \<le> i" "i < aligned_len d scale" by linarith
  then show ?thesis
  proof cases
    case 1
    then have "aligned_val d scale < 10 ^ i"
      using aligned_val_bound [OF assms, of scale] by (meson le_less_trans less_le_trans one_le_numeral power_increasing)
    then show ?thesis using 1 by (simp add: aligned_digit_from_right_def)
  next
    case 2
    then obtain k where "?p = i + Suc k" by (metis add_Suc_right less_imp_Suc_add)
    then have "aligned_val d scale div 10 ^ i = 10 * (digits_val (dd_digits d) * 10 ^ k)"
      by (simp add: aligned_val_def power_add)
    then show ?thesis using 2 by (simp add: aligned_digit_from_right_def aligned_len_def)
  next
    case 3
    then obtain j where j: "i = ?p + j" using le_Suc_ex by blast
    then have "aligned_val d scale div 10 ^ i = digits_val (dd_digits d) div 10 ^ j"
      by (simp add: aligned_val_def power_add div_mult2_eq)
    then show ?thesis using 3 j digits_val_nth [OF assms, of j]
      by (simp add: aligned_digit_from_right_def aligned_len_def)
  qed
qed

lemma dval_aligned:
  assumes "dd_scale d \<le> scale"
  shows "dval d = (if dd_negative d then - 1 else 1) * of_nat (aligned_val d scale) * 10 powi (- scale)"
proof -
  have "(10 :: rat) powi (- dd_scale d) = 10 ^ padding d scale * 10 powi (- scale)"
    using assms by (simp add: padding_def power_int_add [symmetric] flip: power_int_of_nat)
  then show ?thesis by (simp add: dval_def aligned_val_def)
qed

section \<open>The digit loops\<close>

lemma digits_val_rev_Cons: "digits_val (rev (d # ds)) = d + 10 * digits_val (rev ds)"
  by simp

lemma div_pow_step: "(a :: nat) div 10 ^ i = a div 10 ^ i mod 10 + 10 * (a div 10 ^ Suc i)"
  by (metis add.commute mod_mult_div_eq div_mult2_eq mult.commute power_Suc)

lemma add_loop_val:
  assumes "\<And>i. f i = a div 10 ^ i mod 10" "\<And>i. g i = b div 10 ^ i mod 10"
    "a < 10 ^ (i + n)" "b < 10 ^ (i + n)"
  shows "digits_val (rev (add_loop f g i n c)) = a div 10 ^ i + b div 10 ^ i + c"
  using assms(3,4)
proof (induction n arbitrary: i c)
  case (Suc n)
  let ?s = "f i + g i + c"
  have "digits_val (rev (add_loop f g i (Suc n) c)) =
      ?s mod 10 + 10 * (a div 10 ^ Suc i + b div 10 ^ Suc i + ?s div 10)"
    using Suc.IH [of "Suc i" "?s div 10"] Suc.prems by (simp add: Let_def)
  also have "\<dots> = ?s + 10 * (a div 10 ^ Suc i) + 10 * (b div 10 ^ Suc i)"
    using mod_mult_div_eq [of ?s 10] by (simp only: distrib_left)
  also have "\<dots> = a div 10 ^ i + b div 10 ^ i + c"
    using div_pow_step [of a i] div_pow_step [of b i] assms(1,2) by simp
  finally show ?case .
qed simp

lemma add_loop_ok:
  assumes "\<And>i. f i \<le> 9" "\<And>i. g i \<le> 9" "c \<le> 1"
  shows "digits_ok (add_loop f g i n c) \<and> length (add_loop f g i n c) \<le> Suc n"
  using assms(3)
proof (induction n arbitrary: i c)
  case (Suc n)
  have "(f i + g i + c) div 10 \<le> 1" using assms(1) [of i] assms(2) [of i] Suc.prems by simp
  from Suc.IH [OF this] show ?case by (simp add: Let_def digits_ok_def)
qed (simp add: digits_ok_def)

lemma subtract_loop_val:
  assumes "\<And>i. f i = a div 10 ^ i mod 10" "\<And>i. g i = b div 10 ^ i mod 10" "a < 10 ^ (i + n)"
    "b div 10 ^ i + c \<le> a div 10 ^ i" "c \<le> 1"
  shows "digits_val (rev (subtract_loop f g i n (int c))) = a div 10 ^ i - b div 10 ^ i - c \<and>
    digits_ok (subtract_loop f g i n (int c))"
  using assms(3-5)
proof (induction n arbitrary: i c)
  case (Suc n)
  have fg: "f i \<le> 9" "g i \<le> 9" using assms(1,2) by simp_all
  note st = div_pow_step [of a i, folded assms(1)] div_pow_step [of b i, folded assms(2)]
  show ?case
  proof (cases "int (f i) - int c - int (g i) < 0")
    case True
    then have "b div 10 ^ Suc i + 1 \<le> a div 10 ^ Suc i" using st Suc.prems(2) fg by linarith
    with Suc.IH [of "Suc i" 1] Suc.prems(1) True show ?thesis
      using st fg Suc.prems(2,3) by (auto simp: Let_def digits_ok_def)
  next
    case False
    then have "b div 10 ^ Suc i + 0 \<le> a div 10 ^ Suc i" using st Suc.prems(2) fg by linarith
    with Suc.IH [of "Suc i" 0] Suc.prems(1) False show ?thesis
      using st fg Suc.prems(2,3) by (auto simp: Let_def digits_ok_def)
  qed
qed (simp add: digits_ok_def)

lemma first_difference_Suc: "first_difference f (Suc n) = then_with (f 0) (first_difference (f \<circ> Suc) n)"
proof -
  have "map f [0..<Suc n] = f 0 # map (f \<circ> Suc) [0..<n]"
    by (simp add: map_upt_Suc comp_def del: upt_Suc)
  then show ?thesis by (simp add: first_difference_def then_with_def del: upt_Suc)
qed

lemma first_difference_cong: "(\<And>i. i < n \<Longrightarrow> f i = g i) \<Longrightarrow> first_difference f n = first_difference g n"
proof -
  assume "\<And>i. i < n \<Longrightarrow> f i = g i"
  then have "map f [0..<n] = map g [0..<n]" by simp
  then show ?thesis by (simp only: first_difference_def)
qed

lemma first_difference_val:
  assumes "length xs = n" "length ys = n" "digits_ok xs" "digits_ok ys"
  shows "first_difference (\<lambda>i. cmp (xs ! i) (ys ! i)) n = cmp (digits_val xs) (digits_val ys)"
  using assms
proof (induction n arbitrary: xs ys)
  case 0 then show ?case by (simp add: first_difference_def)
next
  case (Suc n)
  obtain x xs' y ys' where e: "xs = x # xs'" "ys = y # ys'"
    using Suc.prems(1,2) by (metis length_Suc_conv)
  have ih: "first_difference (\<lambda>i. cmp (xs' ! i) (ys' ! i)) n = cmp (digits_val xs') (digits_val ys')"
    using Suc e by (simp add: digits_ok_def)
  have b: "digits_val xs' < 10 ^ n" "digits_val ys' < 10 ^ n"
    using digits_val_bound [of xs'] digits_val_bound [of ys'] Suc.prems e by (simp_all add: digits_ok_def)
  have less: "u * 10 ^ n + r < v * 10 ^ n + t" if "u < v" "r < 10 ^ n" for u v r t :: nat
  proof -
    have "Suc u * 10 ^ n \<le> v * 10 ^ n" using that(1) by (intro mult_right_mono) simp_all
    with that(2) show ?thesis by simp
  qed
  have "first_difference (\<lambda>i. cmp (xs ! i) (ys ! i)) (Suc n) =
      then_with (cmp x y) (cmp (digits_val xs') (digits_val ys'))"
    by (simp add: first_difference_Suc comp_def e ih)
  also have "\<dots> = cmp (digits_val xs) (digits_val ys)"
    using less [of x y "digits_val xs'" "digits_val ys'"] less [of y x "digits_val ys'" "digits_val xs'"] b Suc.prems(1,2) e
    by (cases x y rule: linorder_cases) (auto simp: then_with_def cmp_def digits_val_Cons)
  finally show ?case .
qed

definition normal :: "dynamo_decimal \<Rightarrow> bool" where
  "normal d \<longleftrightarrow> digits_ok (dd_digits d) \<and> dd_digits d \<noteq> [] \<and> hd (dd_digits d) \<noteq> 0"

lemma aligned_val_lower:
  assumes "normal d"
  shows "10 ^ (aligned_len d scale - 1) \<le> aligned_val d scale"
proof -
  have "0 < length (dd_digits d)" using assms by (simp add: normal_def)
  then have "aligned_len d scale - 1 = length (dd_digits d) - 1 + padding d scale"
    unfolding aligned_len_def by linarith
  then show ?thesis using digits_val_lower [of "dd_digits d"] assms
    by (simp add: aligned_val_def normal_def power_add)
qed

lemma digits_val_append: "digits_val (xs @ ys) = digits_val xs * 10 ^ length ys + digits_val ys"
  by (induction xs) (simp_all add: digits_val_Cons power_add algebra_simps)

lemma digits_val_zeros: "digits_val (ds @ replicate n 0) = digits_val ds * 10 ^ n"
  using digits_val_zero [of "replicate n 0"] by (simp add: digits_val_append list_all_iff)

lemma compare_same_len:
  assumes "digits_ok (dd_digits a)" "digits_ok (dd_digits b)" "aligned_len a scale = aligned_len b scale"
  shows "compare_abs_digits_aligned a b scale = cmp (aligned_val a scale) (aligned_val b scale)"
proof -
  let ?pad = "\<lambda>d. dd_digits d @ replicate (padding d scale) 0"
  have n: "length (?pad d) = aligned_len d scale" for d by (simp add: aligned_len_def)
  have left: "aligned_digit_from_left d scale i = ?pad d ! i" if "i < aligned_len d scale" for d i
    using that by (simp add: aligned_digit_from_left_def nth_append aligned_len_def)
  have "first_difference (\<lambda>i. cmp (aligned_digit_from_left a scale i) (aligned_digit_from_left b scale i))
      (aligned_len a scale) = first_difference (\<lambda>i. cmp (?pad a ! i) (?pad b ! i)) (aligned_len a scale)"
    by (rule first_difference_cong) (simp add: left assms(3))
  also have "\<dots> = cmp (digits_val (?pad a)) (digits_val (?pad b))"
    using assms n by (intro first_difference_val) (auto simp: digits_ok_def list_all_iff)
  finally show ?thesis using assms(3)
    by (simp add: compare_abs_digits_aligned_def then_with_def digits_val_zeros aligned_val_def)
qed

lemma shorter_less:
  assumes "digits_ok (dd_digits x)" "normal y" "aligned_len x scale < aligned_len y scale"
  shows "aligned_val x scale < aligned_val y scale"
proof -
  have "aligned_val x scale < 10 ^ aligned_len x scale" by (rule aligned_val_bound [OF assms(1)])
  also have "\<dots> \<le> 10 ^ (aligned_len y scale - 1)" using assms(3) by (intro power_increasing) simp_all
  also have "\<dots> \<le> aligned_val y scale" using aligned_val_lower assms(2) by simp
  finally show ?thesis .
qed

text \<open>
  The comparison of magnitudes, by the number of digits first, is right when neither operand is
  zero, and also for zero and a number that is not below one.
\<close>

definition comparable :: "dynamo_decimal \<Rightarrow> dynamo_decimal \<Rightarrow> bool" where
  "comparable a b \<longleftrightarrow> normal a \<and> normal b
     \<or> a = dd_zero \<and> b = dd_zero
     \<or> a = dd_zero \<and> normal b \<and> dd_scale b < int (length (dd_digits b))
     \<or> b = dd_zero \<and> normal a \<and> dd_scale a < int (length (dd_digits a))"

lemma compare_aligned:
  assumes "comparable a b" and scale: "scale = max (dd_scale a) (dd_scale b)"
  shows "compare_abs_digits_aligned a b scale = cmp (aligned_val a scale) (aligned_val b scale)"
proof -
  have ok: "digits_ok (dd_digits a)" "digits_ok (dd_digits b)"
    using assms(1) by (auto simp: comparable_def normal_def dd_zero_def digits_ok_def)
  have zero: "aligned_len dd_zero scale \<le> aligned_len d scale"
    if "normal d" "dd_scale d < int (length (dd_digits d))" "scale = max 0 (dd_scale d)" for d
    using that by (cases "dd_digits d") (auto simp: aligned_len_def dd_zero_def padding_def normal_def max_def)
  show ?thesis
  proof (cases "aligned_len a scale" "aligned_len b scale" rule: linorder_cases)
    case less
    then have "normal b" using assms zero [of a] by (auto simp: comparable_def dd_zero_def max.commute)
    with less show ?thesis using shorter_less [OF ok(1)]
      by (simp add: compare_abs_digits_aligned_def then_with_def cmp_def)
  next
    case greater
    then have "normal a" using assms zero [of b] by (auto simp: comparable_def dd_zero_def max.commute)
    with greater show ?thesis using shorter_less [OF ok(2), of a scale]
      by (auto simp: compare_abs_digits_aligned_def then_with_def cmp_def)
  qed (use compare_same_len [OF ok] in simp)
qed

section \<open>Exact sums before rounding to the range\<close>

lemma aligned_fns:
  assumes "digits_ok (dd_digits d)"
  shows "aligned_digit_from_right d scale i = aligned_val d scale div 10 ^ i mod 10"
    "(if i < aligned_len d scale then aligned_digit_from_right d scale i else 0) = aligned_val d scale div 10 ^ i mod 10"
proof -
  show e: "aligned_digit_from_right d scale i = aligned_val d scale div 10 ^ i mod 10"
    by (rule aligned_digit [OF assms])
  have "\<not> i < aligned_len d scale \<Longrightarrow> aligned_digit_from_right d scale i = 0"
    by (simp add: aligned_digit_from_right_def)
  with e show "(if i < aligned_len d scale then aligned_digit_from_right d scale i else 0) =
      aligned_val d scale div 10 ^ i mod 10" by auto
qed

lemma add_abs_val:
  assumes "digits_ok (dd_digits a)" "digits_ok (dd_digits b)"
  shows "digits_val (add_abs_digits_aligned a b scale) = aligned_val a scale + aligned_val b scale"
    "digits_ok (add_abs_digits_aligned a b scale)"
    "length (add_abs_digits_aligned a b scale) \<le> Suc (max (aligned_len a scale) (aligned_len b scale))"
proof -
  let ?n = "max (aligned_len a scale) (aligned_len b scale)"
  have "aligned_val a scale < 10 ^ ?n" "aligned_val b scale < 10 ^ ?n"
    using aligned_val_bound [OF assms(1), of scale] aligned_val_bound [OF assms(2), of scale]
    by (meson less_le_trans max.cobounded1 max.cobounded2 one_le_numeral power_increasing)+
  then show "digits_val (add_abs_digits_aligned a b scale) = aligned_val a scale + aligned_val b scale"
    using add_loop_val [of "aligned_digit_from_right a scale" _ "aligned_digit_from_right b scale", OF aligned_fns(1) [OF assms(1)] aligned_fns(1) [OF assms(2)], of 0 ?n 0]
    by (simp add: add_abs_digits_aligned_def)
  have "aligned_digit_from_right d scale i \<le> 9" if "digits_ok (dd_digits d)" for d i
    using aligned_fns(1) [OF that, of scale i] by simp
  then show "digits_ok (add_abs_digits_aligned a b scale)"
    "length (add_abs_digits_aligned a b scale) \<le> Suc ?n"
    using add_loop_ok [of "aligned_digit_from_right a scale" "aligned_digit_from_right b scale" 0 0 ?n] assms
    by (simp_all add: add_abs_digits_aligned_def digits_ok_def)
qed

lemma subtract_loop_length: "length (subtract_loop f g i n c) = n"
  by (induction n arbitrary: i c) (simp_all add: Let_def)

lemma subtract_abs_val:
  assumes "digits_ok (dd_digits a)" "digits_ok (dd_digits b)" "aligned_val b scale \<le> aligned_val a scale"
  shows "digits_val (subtract_abs_digits_aligned a b scale) = aligned_val a scale - aligned_val b scale"
    "digits_ok (subtract_abs_digits_aligned a b scale)"
    "length (subtract_abs_digits_aligned a b scale) = aligned_len a scale"
  using subtract_loop_val [of "aligned_digit_from_right a scale" _
      "\<lambda>i. if i < aligned_len b scale then aligned_digit_from_right b scale i else 0",
      OF aligned_fns(1) [OF assms(1)] aligned_fns(2) [OF assms(2)], of 0 "aligned_len a scale" 0]
    assms(3) aligned_val_bound [OF assms(1), of scale]
  by (simp_all add: subtract_abs_digits_aligned_def digits_ok_def subtract_loop_length)

lemma comparable_ok:
  "comparable a b \<Longrightarrow> digits_ok (dd_digits a) \<and> digits_ok (dd_digits b)"
  by (auto simp: comparable_def normal_def dd_zero_def digits_ok_def)

lemma subtract_sign_val:
  assumes "comparable a b" and scale: "scale = max (dd_scale a) (dd_scale b)"
  defines "r \<equiv> subtract_abs_with_sign a b"
  shows "dval r = (if dd_negative a then - 1 else 1)
      * (of_nat (aligned_val a scale) - of_nat (aligned_val b scale)) * 10 powi (- scale)"
    "digits_ok (dd_digits r)" "length (dd_digits r) \<le> max 1 (max (aligned_len a scale) (aligned_len b scale))"
    "dd_scale r = scale \<or> r = dd_zero"
proof -
  note ok = comparable_ok [OF assms(1)]
  note c = compare_aligned [OF assms(1,2)]
  have r: "r = (case cmp (aligned_val a scale) (aligned_val b scale) of
        OGreater \<Rightarrow> \<lparr> dd_negative = dd_negative a, dd_digits = subtract_abs_digits_aligned a b scale, dd_scale = scale \<rparr>
      | OLess \<Rightarrow> \<lparr> dd_negative = \<not> dd_negative a, dd_digits = subtract_abs_digits_aligned b a scale, dd_scale = scale \<rparr>
      | OEqual \<Rightarrow> dd_zero)"
    by (simp add: r_def subtract_abs_with_sign_def Let_def c flip: scale)
  show "dval r = (if dd_negative a then - 1 else 1)
      * (of_nat (aligned_val a scale) - of_nat (aligned_val b scale)) * 10 powi (- scale)"
    "digits_ok (dd_digits r)" "length (dd_digits r) \<le> max 1 (max (aligned_len a scale) (aligned_len b scale))"
    "dd_scale r = scale \<or> r = dd_zero"
    using subtract_abs_val [of a b scale] subtract_abs_val [of b a scale] ok
    by (cases "aligned_val a scale" "aligned_val b scale" rule: linorder_cases;
        auto simp: r cmp_def dval_def dd_zero_def digits_ok_def of_nat_diff)+
qed

section \<open>Normal form and range\<close>

lemma pop_zeros_val:
  assumes "rds \<noteq> []" "\<bar>scale\<bar> + int (length rds) \<le> 2147483647" "digits_ok rds"
  shows "\<exists>ds s. pop_zeros rds scale = Inr (ds, s) \<and> ds \<noteq> [] \<and> digits_ok ds \<and> last ds = last rds
    \<and> (of_nat (digits_val (rev rds)) :: rat) * 10 powi (- scale) = of_nat (digits_val (rev ds)) * 10 powi (- s)
    \<and> length ds \<le> length rds \<and> \<bar>s\<bar> \<le> \<bar>scale\<bar> + int (length rds)"
  using assms
proof (induction rds scale rule: pop_zeros.induct)
  case (1 d ds scale)
  have fits: "in_i32 (scale - 1)" using 1(3) by (auto simp: in_i32_def)
  then obtain ds' s where ih: "pop_zeros (d # ds) (scale - 1) = Inr (ds', s)" "ds' \<noteq> []" "digits_ok ds'"
    "last ds' = last (d # ds)" "length ds' \<le> length (d # ds)"
    "(of_nat (digits_val (rev (d # ds))) :: rat) * 10 powi (- (scale - 1)) = of_nat (digits_val (rev ds')) * 10 powi (- s)"
    "\<bar>s\<bar> \<le> \<bar>scale - 1\<bar> + int (length (d # ds))"
    using 1 by (fastforce simp: i32_checked_def digits_ok_def)
  have "(10 :: rat) powi (- (scale - 1)) = 10 * 10 powi (- scale)"
    by (simp add: power_int_diff power_int_minus field_simps)
  then have "(of_nat (digits_val (rev (0 # d # ds))) :: rat) * 10 powi (- scale) = of_nat (digits_val (rev ds')) * 10 powi (- s)"
    using ih(6) by (simp add: digits_val_append digits_val_Cons algebra_simps)
  moreover have "pop_zeros (0 # d # ds) scale = Inr (ds', s)" using ih(1) fits by (simp add: i32_checked_def)
  moreover have "\<bar>s\<bar> \<le> \<bar>scale\<bar> + int (length (0 # d # ds))" using ih(7) by simp
  ultimately show ?case using ih by auto
qed auto

text \<open>
  A result that stands for the exact value \<open>v\<close>: the value itself when it is zero or its magnitude
  is in the range of the service, and the error of the side on which it leaves that range.
\<close>

definition exact_result :: "update_error + dynamo_decimal \<Rightarrow> rat \<Rightarrow> bool" where
  "exact_result r v \<longleftrightarrow>
     (case r of
        Inr d \<Rightarrow> dval d = v \<and> (d = dd_zero \<or> normal d \<and> 10 powi (- 130) \<le> \<bar>v\<bar> \<and> \<bar>v\<bar> < 10 powi 126)
      | Inl e \<Rightarrow> e = NumberOverflow \<and> 10 powi 126 \<le> \<bar>v\<bar>
          \<or> e = NumberUnderflow \<and> v \<noteq> 0 \<and> \<bar>v\<bar> < 10 powi (- 130))"

lemma normal_magnitude:
  assumes "normal d"
  defines "e \<equiv> int (length (dd_digits d)) - dd_scale d - 1"
  shows "10 powi e \<le> \<bar>dval d\<bar>" "\<bar>dval d\<bar> < 10 powi (e + 1)"
proof -
  let ?n = "length (dd_digits d)" and ?v = "digits_val (dd_digits d)"
  have n: "0 < ?n" using assms(1) by (simp add: normal_def)
  have abs: "\<bar>dval d\<bar> = of_nat ?v * 10 powi (- dd_scale d)"
    by (simp add: dval_def abs_mult)
  have "10 ^ (?n - 1) \<le> ?v" "?v < 10 ^ ?n"
    using digits_val_lower [of "dd_digits d"] digits_val_bound assms(1) by (simp_all add: normal_def)
  then have "(10 :: rat) ^ (?n - 1) \<le> of_nat ?v" "of_nat ?v < (10 :: rat) ^ ?n"
    by (metis of_nat_le_iff of_nat_numeral of_nat_power, metis of_nat_less_iff of_nat_numeral of_nat_power)
  then have "(10 :: rat) ^ (?n - 1) * 10 powi (- dd_scale d) \<le> \<bar>dval d\<bar>"
    "\<bar>dval d\<bar> < (10 :: rat) ^ ?n * 10 powi (- dd_scale d)"
    unfolding abs by (simp_all add: mult_right_mono)
  moreover have "(10 :: rat) ^ (?n - 1) * 10 powi (- dd_scale d) = 10 powi (int (?n - 1) - dd_scale d)"
    by (simp add: power_int_add [symmetric] flip: power_int_of_nat)
  moreover have "int (?n - 1) - dd_scale d = e" unfolding e_def using n by linarith
  moreover have "(10 :: rat) ^ ?n * 10 powi (- dd_scale d) = 10 powi (e + 1)"
    by (simp add: e_def power_int_add [symmetric] flip: power_int_of_nat)
  ultimately show "10 powi e \<le> \<bar>dval d\<bar>" "\<bar>dval d\<bar> < 10 powi (e + 1)" by simp_all
qed

lemma normalized_val:
  assumes "digits_ok (dd_digits d)" "\<bar>dd_scale d\<bar> + int (length (dd_digits d)) \<le> 2147483647"
  shows "\<exists>r. dd_normalized d = Inr r \<and> dval r = dval d \<and> (r = dd_zero \<or> normal r)
    \<and> length (dd_digits r) \<le> max 1 (length (dd_digits d)) \<and> \<bar>dd_scale r\<bar> \<le> \<bar>dd_scale d\<bar> + int (length (dd_digits d))"
proof -
  let ?ds = "dropWhile (\<lambda>x. x = 0) (dd_digits d)"
  have v: "digits_val ?ds = digits_val (dd_digits d)" by (rule digits_val_drop_zeros)
  have len: "length ?ds \<le> length (dd_digits d)" by (rule length_dropWhile_le)
  have ok: "digits_ok ?ds" using assms(1) by (auto simp: digits_ok_def list_all_iff dest: set_dropWhileD)
  show ?thesis
  proof (cases "?ds = []")
    case True
    then have "digits_val (dd_digits d) = 0" by (simp add: digits_val_zero list_all_iff)
    then have "dval d = 0" by (simp add: dval_def)
    then show ?thesis using True by (simp add: dd_normalized_def dd_zero_def dval_def)
  next
    case False
    obtain ds s where p: "pop_zeros (rev ?ds) (dd_scale d) = Inr (ds, s)" "ds \<noteq> []" "digits_ok ds"
      "last ds = last (rev ?ds)" "length ds \<le> length ?ds" "\<bar>s\<bar> \<le> \<bar>dd_scale d\<bar> + int (length ?ds)"
      "(of_nat (digits_val ?ds) :: rat) * 10 powi (- dd_scale d) = of_nat (digits_val (rev ds)) * 10 powi (- s)"
      using pop_zeros_val [of "rev ?ds" "dd_scale d"] False ok len assms(2) by (force simp: digits_ok_def)
    let ?r = "d\<lparr>dd_digits := rev ds, dd_scale := s\<rparr>"
    have "dd_normalized d = Inr ?r"
      by (simp only: dd_normalized_def Let_def False if_False p(1) ebind_Inr prod.case)
    moreover have "dval ?r = dval d" using p(7) v by (simp add: dval_def)
    moreover have "normal ?r" using p(2,3,4) False hd_dropWhile [OF False]
      by (simp add: normal_def digits_ok_def hd_rev last_rev)
    ultimately show ?thesis using p(5,6) len by (auto intro!: exI [of _ ?r])
  qed
qed

lemma finish_decimal_exact:
  assumes "digits_ok (dd_digits d)" "\<bar>dd_scale d\<bar> + int (length (dd_digits d)) \<le> 1000000000"
  shows "exact_result (finish_decimal d) (dval d)"
proof -
  obtain r where r: "dd_normalized d = Inr r" "dval r = dval d" "r = dd_zero \<or> normal r"
    "length (dd_digits r) \<le> max 1 (length (dd_digits d))" "\<bar>dd_scale r\<bar> \<le> \<bar>dd_scale d\<bar> + int (length (dd_digits d))"
    using normalized_val [OF assms(1)] assms(2) by auto
  show ?thesis
  proof (cases "r = dd_zero")
    case True
    then have "finish_decimal d = Inr dd_zero"
      using r(1) by (simp add: finish_decimal_def validate_range_def dd_is_zero_def dd_zero_def)
    then show ?thesis using r(2) True by (simp add: exact_result_def)
  next
    case False
    then have n: "normal r" using r(3) by simp
    let ?e = "int (length (dd_digits r)) - dd_scale r - 1"
    note mag = normal_magnitude [OF n]
    have len: "int (length (dd_digits r)) \<le> 1000000000" using r(4) assms(2) by auto
    have nz: "\<not> dd_is_zero r" using n by (auto simp: dd_is_zero_def normal_def)
    have fits: "in_i32 (int (length (dd_digits r)) - dd_scale r)" "in_i32 ?e"
      using len r(5) assms(2) unfolding in_i32_def by linarith+
    have "as_i32 (length (dd_digits r)) = int (length (dd_digits r))" using len by (simp add: as_i32_def)
    then have "validate_range r = (if 125 < ?e then Inl NumberOverflow else if ?e < -130 then Inl NumberUnderflow else Inr ())"
      using nz fits by (simp add: validate_range_def i32_checked_def)
    moreover have "125 < ?e \<Longrightarrow> (10 :: rat) powi 126 \<le> 10 powi ?e" by (intro power_int_increasing) simp_all
    moreover have "?e < -130 \<Longrightarrow> (10 :: rat) powi (?e + 1) \<le> 10 powi (- 130)" by (intro power_int_increasing) simp_all
    moreover have "\<not> 125 < ?e \<Longrightarrow> (10 :: rat) powi (?e + 1) \<le> 10 powi 126" by (intro power_int_increasing) simp_all
    moreover have "\<not> ?e < -130 \<Longrightarrow> (10 :: rat) powi (- 130) \<le> 10 powi ?e" by (intro power_int_increasing) simp_all
    moreover have "dval r \<noteq> 0" using mag(1) by (metis abs_zero not_less zero_less_numeral zero_less_power_int)
    ultimately show ?thesis using mag r(1,2) n
      by (auto simp: exact_result_def finish_decimal_def)
  qed
qed

text \<open>Bounds under which no machine integer overflows.\<close>

definition modest :: "dynamo_decimal \<Rightarrow> bool" where
  "modest d \<longleftrightarrow> \<bar>dd_scale d\<bar> + int (length (dd_digits d)) \<le> 100000000"

lemma modest_aligned:
  assumes "modest a" "modest b" "scale = max (dd_scale a) (dd_scale b)"
  shows "int (aligned_len a scale) \<le> 300000000" "int (aligned_len b scale) \<le> 300000000" "\<bar>scale\<bar> \<le> 100000000"
  using assms by (auto simp: modest_def aligned_len_def padding_def)

lemma sum_exact:
  assumes "digits_ok (dd_digits a)" "digits_ok (dd_digits b)" "modest a" "modest b"
    "scale = max (dd_scale a) (dd_scale b)"
  shows "exact_result (finish_decimal
      \<lparr> dd_negative = neg, dd_digits = add_abs_digits_aligned a b scale, dd_scale = scale \<rparr>)
    ((if neg then - 1 else 1) * (\<bar>dval a\<bar> + \<bar>dval b\<bar>))" (is "exact_result (finish_decimal ?d) _")
proof -
  note v = add_abs_val [OF assms(1,2), of scale]
  note m = modest_aligned [OF assms(3-5)]
  have abs: "\<bar>dval d\<bar> = of_nat (aligned_val d scale) * 10 powi (- scale)" if "dd_scale d \<le> scale" for d
    by (simp add: dval_aligned [OF that] abs_mult)
  have "dval ?d = (if neg then - 1 else 1) * (\<bar>dval a\<bar> + \<bar>dval b\<bar>)"
  proof -
    have "dval ?d = (if neg then - 1 else 1) * of_nat (digits_val (add_abs_digits_aligned a b scale)) * 10 powi (- scale)"
      by (simp add: dval_def)
    moreover have "dd_scale a \<le> scale" "dd_scale b \<le> scale" using assms(5) by simp_all
    ultimately show ?thesis using abs [of a] abs [of b] by (simp only: v(1) of_nat_add) (simp add: algebra_simps)
  qed
  moreover have "exact_result (finish_decimal ?d) (dval ?d)"
    using v(2,3) m by (intro finish_decimal_exact) auto
  ultimately show ?thesis by metis
qed

lemma difference_exact:
  assumes "comparable a b" "modest a" "modest b"
  shows "exact_result (finish_decimal (subtract_abs_with_sign a b))
    ((if dd_negative a then - 1 else 1) * (\<bar>dval a\<bar> - \<bar>dval b\<bar>))"
proof -
  define scale where "scale = max (dd_scale a) (dd_scale b)"
  let ?d = "subtract_abs_with_sign a b"
  note v = subtract_sign_val [OF assms(1) scale_def]
  note m = modest_aligned [OF assms(2,3) scale_def]
  have abs: "\<bar>dval d\<bar> = of_nat (aligned_val d scale) * 10 powi (- scale)" if "dd_scale d \<le> scale" for d
    by (simp add: dval_aligned [OF that] abs_mult)
  have "dval ?d = (if dd_negative a then - 1 else 1) * (\<bar>dval a\<bar> - \<bar>dval b\<bar>)"
    using abs [of a] abs [of b] v(1) by (simp add: scale_def left_diff_distrib)
  moreover have "exact_result (finish_decimal ?d) (dval ?d)"
    using v(2-4) m by (intro finish_decimal_exact) (auto simp: dd_zero_def)
  ultimately show ?thesis by metis
qed

lemma dval_abs: "\<bar>dval d\<bar> = (if dd_negative d then - dval d else dval d)"
  by (simp add: dval_def abs_mult)

lemma dd_add_exact:
  assumes "digits_ok (dd_digits a)" "digits_ok (dd_digits b)" "modest a" "modest b"
    "dd_negative a \<noteq> dd_negative b \<longrightarrow> comparable a b"
  shows "exact_result (dd_add a b) (dval a + dval b)"
proof (cases "dd_negative a = dd_negative b")
  case True
  then show ?thesis using sum_exact [OF assms(1-4) refl, of "dd_negative a"]
    by (simp add: dd_add_def Let_def dval_abs add.commute split: if_splits)
next
  case False
  then show ?thesis using difference_exact [of a b] assms
    by (simp add: dd_add_def Let_def dval_abs add.commute split: if_splits)
qed

lemma dd_subtract_exact:
  assumes "digits_ok (dd_digits a)" "digits_ok (dd_digits b)" "modest a" "modest b"
    "dd_negative a = dd_negative b \<longrightarrow> comparable a b"
  shows "exact_result (dd_subtract a b) (dval a - dval b)"
proof (cases "dd_negative a = dd_negative b")
  case False
  then show ?thesis using sum_exact [OF assms(1-4) refl, of "dd_negative a"]
    by (simp add: dd_subtract_def Let_def dval_abs split: if_splits)
next
  case True
  then show ?thesis using difference_exact [of a b] assms
    by (simp add: dd_subtract_def Let_def dval_abs split: if_splits)
qed

end
