(* ===== verification/Update_Decimal_Text.thy ===== *)
theory Update_Decimal_Text
  imports Update_Decimal
begin

text \<open>
Number texts read, added, subtracted and written: the results are literals of the exact values.
Subtraction from zero is exact only for numbers that are not below one.
\<close>

section \<open>Reading and writing decimal literals\<close>

lemma scan_digits:
  "all_digits ds \<Longrightarrow> \<not> after \<Longrightarrow>
    scan_mantissa (ds @ rest) digits f after = scan_mantissa rest (digits @ map digit_val ds) f after"
  by (induction ds arbitrary: digits) simp_all

lemma scan_fraction:
  "all_digits ds \<Longrightarrow> 0 \<le> f \<Longrightarrow> f + int (length ds) \<le> 2147483647 \<Longrightarrow>
    scan_mantissa ds digits f True = Inr (digits @ map digit_val ds, f + int (length ds))"
  by (induction ds arbitrary: digits f) (simp_all add: i32_checked_def in_i32_def)

definition modest_literal :: "decimal_literal \<Rightarrow> bool" where
  "modest_literal l \<longleftrightarrow> length (literal_digits l) \<le> 10000000 \<and> \<bar>literal_exponent l\<bar> \<le> 10000000"

lemma digit_not_mark: "is_ascii_digit c \<Longrightarrow> \<not> exponent_mark c \<and> c \<noteq> CHR ''-'' \<and> c \<noteq> CHR ''+'' \<and> c \<noteq> CHR ''.''"
  by (auto simp: is_ascii_digit_def exponent_mark_def)

lemma parse_i32_text:
  assumes "sign_text s" "all_digits d" "d \<noteq> []" "digs_val d \<le> 10000000"
  shows "parse_i32 (s @ d) = Some (if s = ''-'' then - int (digs_val d) else int (digs_val d))"
proof -
  obtain c t where d: "d = c # t" using assms(3) by (cases d) auto
  then have "c \<noteq> CHR ''-''" "c \<noteq> CHR ''+''" using assms(2) digit_not_mark by auto
  then show ?thesis using assms d
    by (auto simp: parse_i32_def sign_text_def checked_i32_def in_i32_def simp del: digs_val_Cons)
qed

definition mantissa_text :: "decimal_literal \<Rightarrow> string" where
  "mantissa_text l = dl_int l @ (case dl_frac l of None \<Rightarrow> [] | Some f \<Rightarrow> CHR ''.'' # f)"

lemma scan_literal:
  assumes "wf_literal l" "modest_literal l"
  shows "scan_mantissa (mantissa_text l) [] 0 False =
    Inr (map digit_val (literal_digits l), int (length (frac_digits l)))"
proof -
  have d: "all_digits (dl_int l)" "all_digits (frac_digits l)" using assms(1) by (auto simp: wf_literal_def)
  have len: "length (frac_digits l) \<le> 10000000" using assms(2) by (simp add: modest_literal_def literal_digits_def)
  have "CHR ''.'' \<notin> {c. is_ascii_digit c}" by (simp add: is_ascii_digit_def)
  then show ?thesis
    using scan_digits [OF d(1), of False] scan_fraction [OF d(2), of 0] len
    by (auto simp: mantissa_text_def literal_digits_def frac_digits_def split: option.splits)
qed

lemma mantissa_start:
  assumes "wf_literal l"
  obtains c t where "mantissa_text l = c # t" "c \<noteq> CHR ''-''" "c \<noteq> CHR ''+''"
proof (cases "dl_int l")
  case Nil
  then obtain f where "dl_frac l = Some f" using assms by (auto simp: wf_literal_def frac_digits_def split: option.splits)
  then show thesis using that Nil by (simp add: mantissa_text_def)
next
  case (Cons c t)
  then have "is_ascii_digit c" using assms by (simp add: wf_literal_def)
  then show thesis using that Cons digit_not_mark by (simp add: mantissa_text_def)
qed

lemma mantissa_no_mark:
  assumes "wf_literal l"
  shows "\<forall>c \<in> set (dl_sign l @ mantissa_text l). \<not> exponent_mark c"
proof -
  have "all_digits (dl_int l)" "all_digits (frac_digits l)" "sign_text (dl_sign l)"
    using assms by (auto simp: wf_literal_def)
  then show ?thesis using digit_not_mark
    by (auto simp: mantissa_text_def frac_digits_def sign_text_def list_all_iff exponent_mark_def split: option.splits)
qed

lemma cut_at:
  assumes "\<forall>c \<in> set xs. P c" "takeWhile P ys = []" "dropWhile P ys = ys"
  shows "takeWhile P (xs @ ys) = xs" "dropWhile P (xs @ ys) = ys"
  using assms by (induction xs) simp_all

lemma parse_literal_finish:
  assumes "wf_literal l" "modest_literal l"
  shows "parse_decimal (literal_text l) = finish_decimal
    \<lparr> dd_negative = (dl_sign l = ''-''), dd_digits = map digit_val (literal_digits l),
      dd_scale = int (length (frac_digits l)) - literal_exponent l \<rparr>"
proof -
  let ?m = "dl_sign l @ mantissa_text l"
  define et where "et = (case dl_exp l of None \<Rightarrow> [] | Some (e, s, d) \<Rightarrow> e # s @ d)"
  have lt: "literal_text l = ?m @ et" by (simp add: literal_text_def mantissa_text_def et_def)
  have start: "takeWhile (\<lambda>c. \<not> exponent_mark c) et = []" "dropWhile (\<lambda>c. \<not> exponent_mark c) et = et"
    using assms(1) by (auto simp: et_def wf_literal_def exponent_mark_def split: option.splits)
  have split: "takeWhile (\<lambda>c. \<not> exponent_mark c) (literal_text l) = ?m"
    "dropWhile (\<lambda>c. \<not> exponent_mark c) (literal_text l) = et"
    unfolding lt by (rule cut_at [OF mantissa_no_mark [OF assms(1)] start])+
  have exp: "(case et of [] \<Rightarrow> Inr 0 | _ # t \<Rightarrow> ok_or OperandType (parse_i32 t)) = Inr (literal_exponent l)"
  proof (cases "dl_exp l")
    case (Some x)
    obtain e s d where x: "x = (e, s, d)" by (cases x)
    then have "parse_i32 (s @ d) = Some (literal_exponent l)"
      using assms Some parse_i32_text [of s d]
      by (simp add: wf_literal_def literal_exponent_def modest_literal_def split: if_splits)
    then show ?thesis using Some x by (simp add: et_def)
  qed (simp add: et_def literal_exponent_def)
  obtain c t where m: "mantissa_text l = c # t" "c \<noteq> CHR ''-''" "c \<noteq> CHR ''+''"
    using mantissa_start [OF assms(1)] .
  have sign: "sign_text (dl_sign l)" using assms(1) by (simp add: wf_literal_def)
  have neg: "(case ?m of [] \<Rightarrow> False | c # _ \<Rightarrow> c = CHR ''-'') \<longleftrightarrow> dl_sign l = ''-''"
    and chars: "(case ?m of [] \<Rightarrow> [] | c # t \<Rightarrow> if c = CHR ''-'' \<or> c = CHR ''+'' then t else ?m) = mantissa_text l"
    using sign m by (auto simp: sign_text_def)
  have ne: "map digit_val (literal_digits l) \<noteq> []" using assms(1) by (simp add: wf_literal_def literal_digits_def)
  have fits: "in_i32 (int (length (frac_digits l)) - literal_exponent l)"
    using assms(2) by (simp add: modest_literal_def literal_digits_def in_i32_def abs_le_iff)
  show ?thesis
    unfolding parse_decimal_def Let_def split exp neg chars ebind_Inr scan_literal [OF assms] prod.case
    using ne fits by (simp add: i32_checked_def)
qed

lemma parse_literal_exact:
  assumes "wf_literal l" "modest_literal l"
  shows "exact_result (parse_decimal (literal_text l)) (literal_value l)"
proof -
  let ?d = "\<lparr> dd_negative = (dl_sign l = ''-''), dd_digits = map digit_val (literal_digits l),
      dd_scale = int (length (frac_digits l)) - literal_exponent l \<rparr>"
  have "all_digits (literal_digits l)" using assms(1) by (simp add: wf_literal_def literal_digits_def)
  then have "digits_ok (map digit_val (literal_digits l))"
    by (simp add: digits_ok_def list_all_iff digit_val_le)
  moreover have "\<bar>dd_scale ?d\<bar> + int (length (dd_digits ?d)) \<le> 1000000000"
    using assms(2) by (simp add: modest_literal_def literal_digits_def) linarith
  ultimately have "exact_result (finish_decimal ?d) (dval ?d)" by (intro finish_decimal_exact) simp_all
  moreover have "dval ?d = literal_value l"
    by (simp add: dval_def literal_value_def digits_val_text)
  ultimately show ?thesis using parse_literal_finish [OF assms] by simp
qed

definition decimal_literal_of :: "dynamo_decimal \<Rightarrow> decimal_literal" where
  "decimal_literal_of d =
     (let sign = (if dd_negative d then ''-'' else []);
          digits = map digit_char (dd_digits d);
          scale = nat (dd_scale d);
          split = length digits - scale in
      if dd_is_zero d then \<lparr> dl_sign = [], dl_int = ''0'', dl_frac = None, dl_exp = None \<rparr>
      else if dd_scale d \<le> 0
      then \<lparr> dl_sign = sign, dl_int = digits @ replicate (nat (- dd_scale d)) (CHR ''0''), dl_frac = None, dl_exp = None \<rparr>
      else if scale < length digits
      then \<lparr> dl_sign = sign, dl_int = take split digits, dl_frac = Some (drop split digits), dl_exp = None \<rparr>
      else \<lparr> dl_sign = sign, dl_int = ''0'',
             dl_frac = Some (replicate (scale - length digits) (CHR ''0'') @ digits), dl_exp = None \<rparr>)"

lemma format_literal:
  "validate_range d = Inr () \<Longrightarrow> dd_format d = Inr (literal_text (decimal_literal_of d))"
  by (simp add: dd_format_def decimal_literal_of_def literal_text_def Let_def)

lemma all_digits_replicate: "all_digits (replicate n (CHR ''0''))"
  by (simp add: list_all_iff)

lemma literal_of_wf:
  assumes "d = dd_zero \<or> normal d"
  shows "wf_literal (decimal_literal_of d)"
proof (cases "d = dd_zero")
  case False
  then have "all_digits (map digit_char (dd_digits d))" "dd_digits d \<noteq> []"
    using assms digits_ok_chars by (auto simp: normal_def)
  moreover have "all_digits (take n ds)" "all_digits (drop n ds)" if "all_digits ds" for n ds
    using that by (auto simp: list_all_iff dest: in_set_takeD in_set_dropD)
  ultimately show ?thesis
    by (auto simp: decimal_literal_of_def wf_literal_def sign_text_def frac_digits_def Let_def all_digits_replicate)
qed (simp add: decimal_literal_of_def dd_zero_def dd_is_zero_def wf_literal_def sign_text_def frac_digits_def)

lemma literal_of_value:
  assumes "d = dd_zero \<or> normal d"
  shows "literal_value (decimal_literal_of d) = dval d"
proof (cases "d = dd_zero")
  case False
  then have n: "digits_ok (dd_digits d)" "\<not> dd_is_zero d"
    using assms by (auto simp: normal_def dd_is_zero_def)
  let ?digits = "map digit_char (dd_digits d)"
  have v: "digs_val ?digits = digits_val (dd_digits d)" using digits_val_chars [OF n(1)] by simp
  consider "dd_scale d \<le> 0" | "0 < dd_scale d" "nat (dd_scale d) < length ?digits"
    | "0 < dd_scale d" "\<not> nat (dd_scale d) < length ?digits" by linarith
  then show ?thesis
  proof cases
    case 1
    then have "(10 :: rat) powi (- dd_scale d) = 10 ^ nat (- dd_scale d)" by (simp add: power_int_def)
    then show ?thesis using 1 n(2) v
      by (simp add: decimal_literal_of_def literal_value_def literal_digits_def frac_digits_def literal_exponent_def Let_def
        dval_def)
  next
    case 2
    then show ?thesis using n(2) v
      by (simp add: decimal_literal_of_def literal_value_def literal_digits_def frac_digits_def literal_exponent_def Let_def
        dval_def of_nat_diff del: map_map)
  next
    case 3
    then show ?thesis using n(2) v
      by (simp add: decimal_literal_of_def literal_value_def literal_digits_def frac_digits_def literal_exponent_def Let_def
        dval_def digs_val_Cons)
  qed
qed (simp add: decimal_literal_of_def dd_zero_def dd_is_zero_def literal_value_def literal_digits_def frac_digits_def
  literal_exponent_def dval_def Let_def)

lemma finish_valid: "finish_decimal x = Inr d \<Longrightarrow> validate_range d = Inr ()"
  by (auto simp: finish_decimal_def result_simps)

text \<open>A text that stands for the exact value \<open>v\<close>.\<close>

definition exact_text :: "update_error + string \<Rightarrow> rat \<Rightarrow> bool" where
  "exact_text r v \<longleftrightarrow>
     (case r of
        Inr s \<Rightarrow> (\<exists>l. wf_literal l \<and> s = literal_text l \<and> literal_value l = v)
          \<and> (v = 0 \<or> 10 powi (- 130) \<le> \<bar>v\<bar> \<and> \<bar>v\<bar> < 10 powi 126)
      | Inl e \<Rightarrow> e = NumberOverflow \<and> 10 powi 126 \<le> \<bar>v\<bar>
          \<or> e = NumberUnderflow \<and> v \<noteq> 0 \<and> \<bar>v\<bar> < 10 powi (- 130))"

lemma exact_format:
  assumes "exact_result (finish_decimal x) v"
  shows "exact_text (ebind (finish_decimal x) dd_format) v"
proof (cases "finish_decimal x")
  case (Inr d)
  have "d = dd_zero \<Longrightarrow> dval d = 0" by (simp add: dd_zero_def dval_def)
  then show ?thesis
    using assms Inr format_literal [OF finish_valid [OF Inr]] literal_of_wf [of d] literal_of_value [of d]
    by (auto simp: exact_result_def exact_text_def)
qed (use assms in \<open>auto simp: exact_result_def exact_text_def\<close>)

section \<open>Arithmetic on number texts\<close>

definition service_range :: "rat \<Rightarrow> bool" where
  "service_range v \<longleftrightarrow> v = 0 \<or> 10 powi (- 130) \<le> \<bar>v\<bar> \<and> \<bar>v\<bar> < 10 powi 126"

lemma finish_modest:
  assumes "finish_decimal x = Inr d" "digits_ok (dd_digits x)" "\<bar>dd_scale x\<bar> + int (length (dd_digits x)) \<le> 30000000"
  shows "modest d"
proof -
  have "dd_normalized x = Inr d" using assms(1) by (auto simp: finish_decimal_def result_simps)
  then show ?thesis using normalized_val [OF assms(2)] assms(3) by (auto simp: modest_def)
qed

lemma normal_nonzero: "normal d \<Longrightarrow> dval d \<noteq> 0"
  using normal_magnitude(1) [of d] by (metis abs_zero not_less zero_less_numeral zero_less_power_int)

lemma normal_not_below_one:
  assumes "normal d"
  shows "1 \<le> \<bar>dval d\<bar> \<longleftrightarrow> dd_scale d < int (length (dd_digits d))"
proof -
  let ?e = "int (length (dd_digits d)) - dd_scale d - 1"
  note m = normal_magnitude [OF assms]
  show ?thesis
  proof (cases "0 \<le> ?e")
    case True
    then have "(1 :: rat) \<le> 10 powi ?e" using power_int_increasing [of 0 ?e "10 :: rat"] by simp
    then have "1 \<le> \<bar>dval d\<bar>" using m(1) by (rule order_trans)
    then show ?thesis using True by simp
  next
    case False
    then have "(10 :: rat) powi (?e + 1) \<le> 1" using power_int_increasing [of "?e + 1" 0 "10 :: rat"] by simp
    with m(2) have "\<bar>dval d\<bar> < 1" by (rule less_le_trans)
    then show ?thesis using False by simp
  qed
qed

lemma parse_literal_decimal:
  assumes "wf_literal l" "modest_literal l" "service_range (literal_value l)"
  obtains d where "parse_decimal (literal_text l) = Inr d" "dval d = literal_value l" "d = dd_zero \<or> normal d"
    "modest d" "dd_negative d \<longleftrightarrow> literal_value l < 0"
proof -
  note e = parse_literal_exact [OF assms(1,2)]
  then obtain d where d: "parse_decimal (literal_text l) = Inr d" "dval d = literal_value l" "d = dd_zero \<or> normal d"
    using assms(3) by (auto simp: exact_result_def service_range_def split: sum.splits)
  have "all_digits (literal_digits l)" using assms(1) by (simp add: wf_literal_def literal_digits_def)
  then have "modest d"
    using parse_literal_finish [OF assms(1,2)] d(1) assms(2)
    by (intro finish_modest)
      (auto simp: digits_ok_def list_all_iff digit_val_le modest_literal_def literal_digits_def)
  moreover have "dd_negative d \<longleftrightarrow> dval d < 0"
  proof (cases "d = dd_zero")
    case False
    then have "dval d \<noteq> 0" using d(3) normal_nonzero by auto
    then show ?thesis using dval_abs [of d] by (auto split: if_splits)
  qed (simp add: dd_zero_def dval_def)
  ultimately show thesis using that d by metis
qed

lemma decimal_ok: "d = dd_zero \<or> normal d \<Longrightarrow> digits_ok (dd_digits d)"
  by (auto simp: normal_def dd_zero_def digits_ok_def)

lemma comparable_values:
  assumes "a = dd_zero \<or> normal a" "b = dd_zero \<or> normal b"
    "dval a = 0 \<longrightarrow> dval b = 0 \<or> 1 \<le> \<bar>dval b\<bar>" "dval b = 0 \<longrightarrow> dval a = 0 \<or> 1 \<le> \<bar>dval a\<bar>"
  shows "comparable a b"
proof -
  have z: "dval dd_zero = 0" by (simp add: dd_zero_def dval_def)
  show ?thesis using assms z normal_nonzero [of a] normal_nonzero [of b] normal_not_below_one [of a] normal_not_below_one [of b]
    by (auto simp: comparable_def)
qed

lemma exact_format_sum:
  "exact_result (dd_add a b) v \<Longrightarrow> exact_text (ebind (dd_add a b) dd_format) v"
  "exact_result (dd_subtract a b) v \<Longrightarrow> exact_text (ebind (dd_subtract a b) dd_format) v"
  unfolding dd_add_def dd_subtract_def Let_def by (rule exact_format, assumption)+

text \<open>
  C9: Addition of two number texts is exact, both for \<open>+\<close> in a \<open>SET\<close> clause and for the operand \<open>b\<close> of an
  \<open>ADD\<close> clause added to the stored number \<open>a\<close>: the result is a decimal literal of the exact sum, or an
  error that the sum is too large or too small for the service. The texts are decimal literals with
  at most \<open>10^7\<close> digits and an exponent of at most \<open>10^7\<close> (the service bounds are far inside; beyond
  them the \<open>i32\<close> arithmetic on scales can overflow, as it does for \<open>0e-2147483648\<close>), each operand
  is zero or within the range of the service, and zero is not added to a negative number above
  \<open>-1\<close>, where the sign of the sum is lost.
\<close>

theorem add_numbers_exact:
  assumes "wf_literal a" "modest_literal a" "service_range (literal_value a)"
    and "wf_literal b" "modest_literal b" "service_range (literal_value b)"
    and "literal_value a = 0 \<longrightarrow> 0 \<le> literal_value b \<or> literal_value b \<le> - 1"
    and "literal_value b = 0 \<longrightarrow> 0 \<le> literal_value a \<or> literal_value a \<le> - 1"
  shows "exact_text (add_arithmetic_numbers (literal_text a) (literal_text b)) (literal_value a + literal_value b)
    \<and> exact_text (ebind (parse_add_number field (literal_text b)) (add_add_expression_with_rhs field (literal_text a)))
        (literal_value a + literal_value b)"
proof -
  obtain x where x: "parse_decimal (literal_text a) = Inr x" "dval x = literal_value a" "x = dd_zero \<or> normal x"
    "modest x" "dd_negative x \<longleftrightarrow> literal_value a < 0"
    using parse_literal_decimal [OF assms(1-3)] .
  obtain y where y: "parse_decimal (literal_text b) = Inr y" "dval y = literal_value b" "y = dd_zero \<or> normal y"
    "modest y" "dd_negative y \<longleftrightarrow> literal_value b < 0"
    using parse_literal_decimal [OF assms(4-6)] .
  have "dd_negative x \<noteq> dd_negative y \<longrightarrow> comparable x y"
    using assms(7,8) x(2,5) y(2,5) by (intro impI comparable_values [OF x(3) y(3)]) auto
  then have "exact_result (dd_add x y) (dval x + dval y)"
    using dd_add_exact [OF decimal_ok [OF x(3)] decimal_ok [OF y(3)] x(4) y(4)] by blast
  then show ?thesis using x y
    by (simp add: add_arithmetic_numbers_def parse_add_number_def add_add_expression_with_rhs_def map_err_def exact_format_sum)
qed

definition sample_literal :: "string \<Rightarrow> string \<Rightarrow> string \<Rightarrow> decimal_literal" where
  "sample_literal sign i f = \<lparr> dl_sign = sign, dl_int = i, dl_frac = Some f, dl_exp = None \<rparr>"

lemma service_range_mid:
  assumes "1 / 1000 \<le> \<bar>v\<bar>" "\<bar>v\<bar> \<le> 1000"
  shows "service_range v"
proof -
  have "(10 :: rat) powi (- 130) \<le> 10 powi (- 3)" "(10 :: rat) powi 3 < 10 powi 126"
    by (intro power_int_increasing power_int_strict_increasing, simp_all)+
  then show ?thesis using assms by (simp add: service_range_def power_int_minus)
qed

lemmas literal_eval = sample_literal_def wf_literal_def modest_literal_def literal_value_def
  literal_digits_def frac_digits_def literal_exponent_def sign_text_def is_ascii_digit_def digit_val_def

theorem add_numbers_exact_witness:
  "exact_text (add_arithmetic_numbers (literal_text (sample_literal [] ''12'' ''75'')) (literal_text (sample_literal ''-'' ''3'' ''5'')))
    (literal_value (sample_literal [] ''12'' ''75'') + literal_value (sample_literal ''-'' ''3'' ''5''))
  \<and> exact_text (ebind (parse_add_number ''n'' (literal_text (sample_literal ''-'' ''3'' ''5'')))
      (add_add_expression_with_rhs ''n'' (literal_text (sample_literal [] ''12'' ''75''))))
    (literal_value (sample_literal [] ''12'' ''75'') + literal_value (sample_literal ''-'' ''3'' ''5''))"
  by (rule add_numbers_exact) (simp_all add: literal_eval service_range_mid power_int_minus)

text \<open>
  C33: Subtraction of number texts is exact in the same sense, except when zero is subtracted from a
  positive number below one or such a number from zero.
\<close>

theorem subtract_numbers_exact:
  assumes "wf_literal a" "modest_literal a" "service_range (literal_value a)"
    and "wf_literal b" "modest_literal b" "service_range (literal_value b)"
    and "literal_value a = 0 \<longrightarrow> literal_value b \<le> 0 \<or> 1 \<le> literal_value b"
    and "literal_value b = 0 \<longrightarrow> literal_value a \<le> 0 \<or> 1 \<le> literal_value a"
  shows "exact_text (subtract_arithmetic_numbers (literal_text a) (literal_text b)) (literal_value a - literal_value b)"
proof -
  obtain x where x: "parse_decimal (literal_text a) = Inr x" "dval x = literal_value a" "x = dd_zero \<or> normal x"
    "modest x" "dd_negative x \<longleftrightarrow> literal_value a < 0"
    using parse_literal_decimal [OF assms(1-3)] .
  obtain y where y: "parse_decimal (literal_text b) = Inr y" "dval y = literal_value b" "y = dd_zero \<or> normal y"
    "modest y" "dd_negative y \<longleftrightarrow> literal_value b < 0"
    using parse_literal_decimal [OF assms(4-6)] .
  have "dd_negative x = dd_negative y \<longrightarrow> comparable x y"
    using assms(7,8) x(2,5) y(2,5) by (intro impI comparable_values [OF x(3) y(3)]) auto
  then have "exact_result (dd_subtract x y) (dval x - dval y)"
    using dd_subtract_exact [OF decimal_ok [OF x(3)] decimal_ok [OF y(3)] x(4) y(4)] by blast
  then show ?thesis using x y by (simp add: subtract_arithmetic_numbers_def exact_format_sum)
qed

theorem subtract_numbers_exact_witness:
  "exact_text (subtract_arithmetic_numbers (literal_text (sample_literal [] ''1'' ''0'')) (literal_text (sample_literal [] ''0'' ''999'')))
    (literal_value (sample_literal [] ''1'' ''0'') - literal_value (sample_literal [] ''0'' ''999''))"
  by (rule subtract_numbers_exact) (simp_all add: literal_eval service_range_mid power_int_minus)

section \<open>Zero and numbers below one\<close>

lemma subtract_small_from_zero:
  assumes "normal d" "\<not> dd_negative d" "int (length (dd_digits d)) \<le> dd_scale d"
  shows "\<not> dd_negative (subtract_abs_with_sign dd_zero d)"
proof -
  have "0 \<le> dd_scale d" using assms(3) by simp
  then have "aligned_len d (dd_scale d) < aligned_len dd_zero (dd_scale d)"
    using assms(3) by (simp add: aligned_len_def padding_def dd_zero_def)
  then have "compare_abs_digits_aligned dd_zero d (dd_scale d) = OGreater"
    by (simp add: compare_abs_digits_aligned_def then_with_def cmp_def)
  then show ?thesis using \<open>0 \<le> dd_scale d\<close> by (simp add: subtract_abs_with_sign_def dd_zero_def max_def Let_def)
qed

lemma finish_sign: "finish_decimal x = Inr d \<Longrightarrow> \<not> dd_negative x \<Longrightarrow> \<not> dd_negative d"
  by (auto simp: finish_decimal_def dd_normalized_def result_simps dd_zero_def Let_def split: if_splits)

lemma literal_of_positive:
  assumes "\<not> dd_negative d" "d = dd_zero \<or> normal d"
  shows "hd (literal_text (decimal_literal_of d)) \<noteq> CHR ''-'' \<and> literal_text (decimal_literal_of d) \<noteq> []"
proof -
  let ?l = "decimal_literal_of d"
  have s: "dl_sign ?l = []" using assms(1) by (simp add: decimal_literal_of_def Let_def)
  have wf: "wf_literal ?l" by (rule literal_of_wf [OF assms(2)])
  obtain c t where "mantissa_text ?l = c # t" "c \<noteq> CHR ''-''" using mantissa_start [OF wf] by metis
  moreover have "literal_text ?l = dl_sign ?l @ mantissa_text ?l @ (case dl_exp ?l of None \<Rightarrow> [] | Some (e, s, d) \<Rightarrow> e # s @ d)"
    by (simp add: literal_text_def mantissa_text_def)
  ultimately show ?thesis using s by simp
qed

lemma subtract_loop_digits:
  assumes "\<And>i. f i \<le> 9" "\<And>i. g i \<le> 9" "c = 0 \<or> c = 1"
  shows "digits_ok (subtract_loop f g i n c)"
  using assms(3)
proof (induction n arbitrary: i c)
  case (Suc n)
  then show ?case using assms(1) [of i] assms(2) [of i] by (auto simp: digits_ok_def Let_def)
qed (simp add: digits_ok_def)

lemma subtract_digits_ok:
  assumes "digits_ok (dd_digits a)" "digits_ok (dd_digits b)"
  shows "digits_ok (subtract_abs_digits_aligned a b scale)"
  using subtract_loop_digits [of "aligned_digit_from_right a scale"
      "\<lambda>i. if i < aligned_len b scale then aligned_digit_from_right b scale i else 0" 0]
    aligned_fns(1) [OF assms(1), of scale] aligned_fns(2) [OF assms(2), of _ scale]
  by (simp add: subtract_abs_digits_aligned_def digits_ok_def)

lemma pop_zeros_shape:
  "pop_zeros rds scale = Inr (ds, s) \<Longrightarrow> rds \<noteq> [] \<Longrightarrow> digits_ok rds \<Longrightarrow> ds \<noteq> [] \<and> last ds = last rds \<and> digits_ok ds"
  by (induction rds scale rule: pop_zeros.induct) (auto simp: result_simps digits_ok_def)

lemma normalized_shape:
  assumes "dd_normalized x = Inr r" "digits_ok (dd_digits x)"
  shows "r = dd_zero \<or> normal r"
proof (cases "dropWhile (\<lambda>d. d = 0) (dd_digits x) = []")
  case False
  let ?ds = "dropWhile (\<lambda>d. d = 0) (dd_digits x)"
  have ok: "digits_ok (rev ?ds)" using assms(2) by (auto simp: digits_ok_def list_all_iff dest: set_dropWhileD)
  obtain ds s where "pop_zeros (rev ?ds) (dd_scale x) = Inr (ds, s)" "r = x\<lparr>dd_digits := rev ds, dd_scale := s\<rparr>"
    using assms(1) unfolding dd_normalized_def Let_def by (auto simp only: False if_False result_simps prod.case split: prod.splits)
  with pop_zeros_shape [OF this(1) _ ok] False hd_dropWhile [OF False] show ?thesis
    by (simp add: normal_def digits_ok_def hd_rev last_rev)
qed (use assms in \<open>simp add: dd_normalized_def Let_def\<close>)

lemma literal_negative: "literal_value l < 0 \<Longrightarrow> dl_sign l = ''-''"
proof (rule ccontr)
  assume "literal_value l < 0" "dl_sign l \<noteq> ''-''"
  moreover have "0 \<le> (of_nat n :: rat) * 10 powi k" for n k by simp
  ultimately show False by (simp add: literal_value_def not_less [symmetric])
qed

lemma subtract_small_text:
  assumes "normal d" "\<not> dd_negative d" "int (length (dd_digits d)) \<le> dd_scale d" "0 < v" "service_range v"
  shows "\<not> exact_text (ebind (dd_subtract dd_zero d) dd_format) (- v)"
proof (cases "dd_subtract dd_zero d")
  case (Inl e)
  then show ?thesis using assms(4,5) by (auto simp: exact_text_def service_range_def)
next
  case (Inr r)
  then have f: "finish_decimal (subtract_abs_with_sign dd_zero d) = Inr r"
    using assms(2) by (simp add: dd_subtract_def dd_zero_def Let_def)
  show ?thesis
  proof (cases "r = dd_zero \<or> normal r")
    case True
    then have h: "hd (literal_text (decimal_literal_of r)) \<noteq> CHR ''-''"
      using literal_of_positive [OF finish_sign [OF f subtract_small_from_zero [OF assms(1-3)]]] by blast
    have "ebind (dd_subtract dd_zero d) dd_format = Inr (literal_text (decimal_literal_of r))"
      using Inr format_literal [OF finish_valid [OF f]] by simp
    moreover have "hd (literal_text l) = CHR ''-''" if "wf_literal l" "literal_value l = - v" for l
      using that assms(4) literal_negative [of l] by (simp add: literal_text_def)
    ultimately show ?thesis using h by (auto simp: exact_text_def)
  next
    case False
    have "digits_ok (dd_digits (subtract_abs_with_sign dd_zero d))"
      using subtract_digits_ok [of dd_zero d] subtract_digits_ok [of d dd_zero] assms(1)
      by (auto simp: subtract_abs_with_sign_def Let_def dd_zero_def normal_def digits_ok_def split: ordering.split)
    moreover have "dd_normalized (subtract_abs_with_sign dd_zero d) = Inr r"
      using f by (auto simp: finish_decimal_def result_simps)
    ultimately show ?thesis using False normalized_shape by blast
  qed
qed

text \<open>
  C34: Subtracting a positive number from zero is exact only when the number is at least one: zero
  keeps one digit, padded to the other operand's scale, and so is taken for the larger magnitude.
\<close>

theorem subtract_from_zero_exact_iff:
  assumes "wf_literal l" "modest_literal l" "service_range (literal_value l)" "0 < literal_value l"
  shows "exact_text (subtract_arithmetic_numbers ''0'' (literal_text l)) (- literal_value l) \<longleftrightarrow> 1 \<le> literal_value l"
proof -
  obtain d where d: "parse_decimal (literal_text l) = Inr d" "dval d = literal_value l" "d = dd_zero \<or> normal d"
    "modest d" "dd_negative d \<longleftrightarrow> literal_value l < 0"
    using parse_literal_decimal [OF assms(1-3)] .
  have n: "normal d" using d(2,3) assms(4) by (auto simp: dd_zero_def dval_def)
  have z: "parse_decimal ''0'' = Inr dd_zero"
    by (simp add: parse_decimal_def exponent_mark_def is_ascii_digit_def digit_val_def i32_checked_def in_i32_def
      finish_decimal_def dd_normalized_def validate_range_def dd_is_zero_def dd_zero_def Let_def)
  have r: "subtract_arithmetic_numbers ''0'' (literal_text l) = ebind (dd_subtract dd_zero d) dd_format"
    by (simp add: subtract_arithmetic_numbers_def z d(1))
  have zv: "dval dd_zero = 0" "modest dd_zero" by (simp_all add: dd_zero_def dval_def modest_def)
  show ?thesis
  proof (cases "1 \<le> literal_value l")
    case True
    then have "comparable dd_zero d" using d(2) normal_not_below_one [OF n] n by (simp add: comparable_def)
    then have "exact_result (dd_subtract dd_zero d) (dval dd_zero - dval d)"
      using dd_subtract_exact [OF decimal_ok decimal_ok [OF d(3)] zv(2) d(4)] by blast
    then show ?thesis using True r zv d(2) by (simp add: exact_format_sum)
  next
    case False
    then have "int (length (dd_digits d)) \<le> dd_scale d"
      using normal_not_below_one [OF n] d(2) assms(4) by (simp add: not_less [symmetric])
    then show ?thesis using False r subtract_small_text [OF n _ _ assms(4,3)] d(5) assms(4) by simp
  qed
qed

theorem subtract_from_zero_exact_iff_witness:
  "\<not> exact_text (subtract_arithmetic_numbers ''0'' (literal_text (sample_literal [] ''0'' ''5'')))
      (- literal_value (sample_literal [] ''0'' ''5''))"
proof -
  have "wf_literal (sample_literal [] ''0'' ''5'')" "modest_literal (sample_literal [] ''0'' ''5'')"
    "service_range (literal_value (sample_literal [] ''0'' ''5''))" "0 < literal_value (sample_literal [] ''0'' ''5'')"
    "\<not> 1 \<le> literal_value (sample_literal [] ''0'' ''5'')"
    by (simp_all add: literal_eval service_range_mid power_int_minus)
  then show ?thesis using subtract_from_zero_exact_iff by blast
qed

text \<open>The digits that come out.\<close>

lemma zero_minus_half: "subtract_arithmetic_numbers ''0'' ''0.5'' = Inr ''9.5''"
  by code_simp

text \<open>A zero written with the smallest exponent is a valid number, but negating its exponent overflows.\<close>

lemma zero_exponent_panics: "parse_decimal ''0e-2147483648'' = Inl ArithmeticPanic"
  by (simp add: parse_decimal_def exponent_mark_def is_ascii_digit_def digit_val_def parse_i32_def checked_i32_def
    i32_checked_def in_i32_def Let_def)

end
