(* ===== verification/Update_Value.thy ===== *)
theory Update_Value
  imports Update_Decimal_Text Condition_Lexer
begin

text \<open>
  Values of update expressions (\<open>update_logic/value/mod.rs\<close>): the resolver that turns the text of a
  value into a plan, the binding of a plan to the values of a request, by copy and by reference, and
  the evaluation of the bound operand against an item.

  The JSON reader of literals and the Unicode tables are parameters. The numbers that the reader
  returns are the integers of 64 bits and the floats with the text that the formatter gives them.
\<close>

section \<open>Strings\<close>

text \<open>The characters of a string and \<open>str::trim\<close>.\<close>

function chars_of :: "string \<Rightarrow> string list" where
  "chars_of s = (case current_char s of None \<Rightarrow> [] | Some ch \<Rightarrow> ch # chars_of (advance_char s))"
  by pat_completeness auto
termination
  by (relation "measure length") (auto dest: current_char_Some simp: advance_char_shorter)

declare chars_of.simps [simp del]

definition trim :: "unicode \<Rightarrow> string \<Rightarrow> string" where
  "trim uc s = concat (rev (dropWhile (char_is_whitespace uc) (rev (dropWhile (char_is_whitespace uc) (chars_of s)))))"

definition strip_prefix :: "string \<Rightarrow> string \<Rightarrow> string option" where
  "strip_prefix p s = (if starts_with s p then Some (drop (length p) s) else None)"

definition strip_suffix :: "char \<Rightarrow> string \<Rightarrow> string option" where
  "strip_suffix c s = (if s \<noteq> [] \<and> last s = c then Some (butlast s) else None)"

definition split_once :: "char \<Rightarrow> string \<Rightarrow> (string \<times> string) option" where
  "split_once c s = (if c \<in> set s then Some (takeWhile (\<lambda>d. d \<noteq> c) s, tl (dropWhile (\<lambda>d. d \<noteq> c) s)) else None)"

lemma chars_of_concat: "concat (chars_of s) = s"
proof (induction s rule: chars_of.induct)
  case (1 s)
  show ?case
  proof (cases "current_char s")
    case None
    then show ?thesis by (subst chars_of.simps) (simp add: current_char_def split: list.splits)
  next
    case (Some ch)
    with 1 [OF Some] current_char_Some [OF Some] show ?thesis
      by (subst chars_of.simps) simp
  qed
qed

lemma length_concat_dropWhile: "length (concat (dropWhile P xs)) \<le> length (concat xs)"
  by (induction xs) simp_all

lemma length_concat_rev: "length (concat (rev xs)) = length (concat xs)"
  by (induction xs) simp_all

lemma trim_le: "length (trim uc s) \<le> length s"
  using length_concat_dropWhile [of "char_is_whitespace uc" "rev (dropWhile (char_is_whitespace uc) (chars_of s))"]
    length_concat_dropWhile [of "char_is_whitespace uc" "chars_of s"]
  by (simp add: trim_def length_concat_rev chars_of_concat)

section \<open>Plans and operands\<close>

datatype arithmetic_operator = OpAdd | OpSubtract

datatype update_value_plan =
    PPlaceholder string
  | PLiteral attribute_value
  | PPath string
  | PIfNotExists string update_value_plan
  | PListAppend update_value_plan update_value_plan
  | PArithmetic update_value_plan arithmetic_operator update_value_plan

datatype set_function_plan =
    FIfNotExists string update_value_plan
  | FListAppend update_value_plan update_value_plan

datatype update_operand =
    OValue attribute_value
  | OPath string
  | OIfNotExists string update_operand
  | OListAppend update_operand update_operand
  | OArithmetic update_operand arithmetic_operator update_operand

text \<open>The operand that borrows request values; a borrowed value and its copy are the same value.\<close>

datatype bound_update_operand =
    BValue attribute_value
  | BPath string
  | BIfNotExists string bound_update_operand
  | BListAppend bound_update_operand bound_update_operand
  | BArithmetic bound_update_operand arithmetic_operator bound_update_operand

text \<open>
  What the JSON reader makes of a literal: a number is an integer of 64 bits or a float with the
  text the formatter gives it, or neither.
\<close>

datatype json_literal =
    JString string
  | JInteger int
  | JFloat string
  | JOtherNumber
  | JBool bool
  | JOther

record update_env =
  ue_uc :: unicode
  ue_json :: "string \<Rightarrow> json_literal option"

section \<open>Splitting at the top level\<close>

abbreviation (input) dquote :: char where "dquote \<equiv> CHR 0x22"

text \<open>
  One character inside a string literal: the quote ends it, because \<open>escaped\<close> is recomputed before
  it is tested.
\<close>

definition string_step :: "char \<Rightarrow> bool \<Rightarrow> bool \<times> bool" where
  "string_step ch escaped =
     (let escaped = (ch = CHR 0x5C \<and> \<not> escaped);
          in_string = \<not> (ch = dquote \<and> \<not> escaped);
          escaped = (if ch \<noteq> CHR 0x5C then False else escaped) in
      (in_string, escaped))"

fun split_arithmetic_loop :: "unicode \<Rightarrow> string \<Rightarrow> string \<Rightarrow> nat \<Rightarrow> bool \<Rightarrow> bool
    \<Rightarrow> (string \<times> arithmetic_operator \<times> string) option" where
  "split_arithmetic_loop uc before [] depth in_string escaped = None"
| "split_arithmetic_loop uc before (ch # rest) depth in_string escaped =
     (if in_string then
        let (in_string, escaped) = string_step ch escaped in
        split_arithmetic_loop uc (before @ [ch]) rest depth in_string escaped
      else if ch = dquote then split_arithmetic_loop uc (before @ [ch]) rest depth True escaped
      else if ch = CHR ''('' then split_arithmetic_loop uc (before @ [ch]) rest (depth + 1) False escaped
      else if ch = CHR '')'' then split_arithmetic_loop uc (before @ [ch]) rest (depth - 1) False escaped
      else if (ch = CHR ''+'' \<or> ch = CHR ''-'') \<and> depth = 0 \<and> before \<noteq> [] then
        let lhs = trim uc before; rhs = trim uc rest in
        if lhs = [] \<or> rhs = [] then None
        else Some (lhs, (if ch = CHR ''+'' then OpAdd else OpSubtract), rhs)
      else split_arithmetic_loop uc (before @ [ch]) rest depth False escaped)"

definition split_top_level_arithmetic :: "unicode \<Rightarrow> string \<Rightarrow> (string \<times> arithmetic_operator \<times> string) option" where
  "split_top_level_arithmetic uc value_expr = split_arithmetic_loop uc [] value_expr 0 False False"

fun split_comma_loop :: "string \<Rightarrow> string \<Rightarrow> nat \<Rightarrow> bool \<Rightarrow> bool \<Rightarrow> (string \<times> string) option
    \<Rightarrow> (string \<times> string) option" where
  "split_comma_loop before [] depth in_string escaped comma = comma"
| "split_comma_loop before (ch # rest) depth in_string escaped comma =
     (if in_string then
        let (in_string, escaped) = string_step ch escaped in
        split_comma_loop (before @ [ch]) rest depth in_string escaped comma
      else if ch = dquote then split_comma_loop (before @ [ch]) rest depth True escaped comma
      else if ch = CHR ''('' then split_comma_loop (before @ [ch]) rest (depth + 1) False escaped comma
      else if ch = CHR '')'' then split_comma_loop (before @ [ch]) rest (depth - 1) False escaped comma
      else if ch = CHR '','' \<and> depth = 0 then
        if comma \<noteq> None then None
        else split_comma_loop (before @ [ch]) rest depth False escaped (Some (before, rest))
      else split_comma_loop (before @ [ch]) rest depth False escaped comma)"

definition split_top_level_comma_pair :: "string \<Rightarrow> (string \<times> string) option" where
  "split_top_level_comma_pair value_text = split_comma_loop [] value_text 0 False False None"

lemma split_arithmetic_shorter:
  "split_arithmetic_loop uc before s depth ins esc = Some (lhs, op, rhs) \<Longrightarrow>
    length lhs < length before + length s \<and> length rhs < length before + length s"
proof (induction uc before s depth ins esc rule: split_arithmetic_loop.induct)
  case (2 uc before ch rest depth ins esc)
  show ?case
  proof (cases "ins \<or> ch = dquote \<or> ch = CHR ''('' \<or> ch = CHR '')''")
    case True
    with 2 show ?thesis by (auto simp: Let_def split: prod.splits if_splits)
  next
    case False
    with 2 trim_le [of uc before] trim_le [of uc rest] show ?thesis
      by (auto simp: Let_def split: if_splits)
  qed
qed simp

lemma split_comma_shorter:
  "split_comma_loop before s depth ins esc comma = Some (a, b) \<Longrightarrow>
    comma = Some (a, b) \<or> (length a \<le> length before + length s \<and> length b \<le> length before + length s)"
proof (induction before s depth ins esc comma rule: split_comma_loop.induct)
  case (2 before ch rest depth ins esc comma)
  then show ?case by (cases "ins \<or> ch = dquote \<or> ch = CHR ''('' \<or> ch = CHR '')''")
    (auto simp: Let_def split: prod.splits if_splits)
qed simp

lemma arithmetic_shorter:
  "split_top_level_arithmetic uc s = Some (lhs, op, rhs) \<Longrightarrow> length lhs < length s \<and> length rhs < length s"
  using split_arithmetic_shorter [of uc "[]" s] by (simp add: split_top_level_arithmetic_def)

lemma comma_pair_shorter:
  "split_top_level_comma_pair s = Some (a, b) \<Longrightarrow> length a \<le> length s \<and> length b \<le> length s"
  using split_comma_shorter [of "[]" s 0 False False None a b] by (simp add: split_top_level_comma_pair_def)


section \<open>Resolving a value expression\<close>

definition into_ok_plan :: "set_function_plan + update_value_plan \<Rightarrow> update_error + update_value_plan" where
  "into_ok_plan r =
     (case r of
        Inr value \<Rightarrow> Inr value
      | Inl (FIfNotExists path operand) \<Rightarrow> Inr (PIfNotExists path operand)
      | Inl (FListAppend operand1 operand2) \<Rightarrow> Inr (PListAppend operand1 operand2))"

definition is_document_path_expression :: "unicode \<Rightarrow> string \<Rightarrow> bool" where
  "is_document_path_expression uc value_expr =
     (let value_expr = trim uc value_expr in
      if starts_with value_expr ''#'' \<or> list_ex (\<lambda>c. c = CHR ''.'' \<or> c = CHR ''['') value_expr then True
      else (case value_expr of [] \<Rightarrow> False | first # _ \<Rightarrow>
        is_ascii_letter first
        \<and> \<not> (value_expr = ''true'' \<or> value_expr = ''false'' \<or> value_expr = ''null'')
        \<and> \<not> starts_with value_expr ''if_not_exists('' \<and> \<not> starts_with value_expr ''list_append(''))"

definition json_literal_value :: "string \<Rightarrow> json_literal \<Rightarrow> update_error + attribute_value" where
  "json_literal_value value_expr json_value =
     (case json_value of
        JString s \<Rightarrow> Inr (S s)
      | JInteger i \<Rightarrow> Inr (N (string_of_int i))
      | JFloat f \<Rightarrow> Inr (N f)
      | JOtherNumber \<Rightarrow> Inl InvalidNumberLiteral
      | JBool b \<Rightarrow> Inr (BOOL b)
      | JOther \<Rightarrow> Inl (UnsupportedLiteral value_expr))"

definition function_arguments :: "string \<Rightarrow> string \<Rightarrow> string option" where
  "function_arguments fname value_expr =
     Option.bind (strip_prefix fname value_expr) (strip_suffix (CHR '')''))"

lemma function_arguments_shorter:
  "fname \<noteq> [] \<Longrightarrow> function_arguments fname s = Some inner \<Longrightarrow> length inner < length s"
  by (auto simp: function_arguments_def strip_prefix_def strip_suffix_def split: if_splits Option.bind_splits)

lemma argument_shorter:
  assumes "function_arguments fname s = Some inner" "fname \<noteq> []" "split_top_level_comma_pair inner = Some (a, b)"
  shows "length (trim uc a) < length s" "length (trim uc b) < length s"
  using function_arguments_shorter [OF assms(2,1)] comma_pair_shorter [OF assms(3)] trim_le [of uc a] trim_le [of uc b]
  by linarith+

function resolve_attribute_value_plan :: "update_env \<Rightarrow> names option \<Rightarrow> string
    \<Rightarrow> update_error + (set_function_plan + update_value_plan)" where
  "resolve_attribute_value_plan env names value_expr =
     (case split_top_level_arithmetic (ue_uc env) value_expr of
        Some (lhs, operator, rhs) \<Rightarrow>
          ebind (resolve_attribute_value_plan env names lhs) (\<lambda>lhs.
          ebind (resolve_attribute_value_plan env names rhs) (\<lambda>rhs.
          ebind (into_ok_plan lhs) (\<lambda>lhs.
          ebind (into_ok_plan rhs) (\<lambda>rhs.
          Inr (Inr (PArithmetic lhs operator rhs))))))
      | None \<Rightarrow>
     if starts_with value_expr '':'' then Inr (Inr (PPlaceholder value_expr))
     else (case function_arguments ''if_not_exists('' value_expr of
        Some inner \<Rightarrow>
          (case split_top_level_comma_pair inner of
             None \<Rightarrow> Inl (FunctionArity ''if_not_exists'')
           | Some (path_part, operand_part) \<Rightarrow>
               ebind (resolve_document_path (trim (ue_uc env) path_part) names) (\<lambda>path.
               ebind (resolve_attribute_value_plan env names (trim (ue_uc env) operand_part)) (\<lambda>operand.
               ebind (into_ok_plan operand) (\<lambda>operand.
               Inr (Inl (FIfNotExists path operand))))))
      | None \<Rightarrow>
     (case function_arguments ''list_append('' value_expr of
        Some inner \<Rightarrow>
          (case split_top_level_comma_pair inner of
             None \<Rightarrow> Inl (FunctionArity ''list_append'')
           | Some (op1_part, op2_part) \<Rightarrow>
               ebind (resolve_attribute_value_plan env names (trim (ue_uc env) op1_part)) (\<lambda>operand1.
               ebind (into_ok_plan operand1) (\<lambda>operand1.
               ebind (resolve_attribute_value_plan env names (trim (ue_uc env) op2_part)) (\<lambda>operand2.
               ebind (into_ok_plan operand2) (\<lambda>operand2.
               Inr (Inl (FListAppend operand1 operand2)))))))
      | None \<Rightarrow>
     if is_document_path_expression (ue_uc env) value_expr then
       ebind (resolve_document_path (trim (ue_uc env) value_expr) names) (\<lambda>path. Inr (Inr (PPath path)))
     else (case ue_json env value_expr of
        Some json_value \<Rightarrow> ebind (json_literal_value value_expr json_value) (\<lambda>value. Inr (Inr (PLiteral value)))
      | None \<Rightarrow>
          if (case value_expr of c # _ \<Rightarrow> c = CHR ''{'' \<or> c = CHR ''['' \<or> c = dquote | [] \<Rightarrow> False)
          then Inl (InvalidValueExpression value_expr)
          else ebind (resolve_document_path (trim (ue_uc env) value_expr) names) (\<lambda>path. Inr (Inr (PPath path)))))))"
  by pat_completeness auto
termination
  by (relation "measure (\<lambda>(env, names, s). length s)")
    (auto dest: arithmetic_shorter argument_shorter)

declare resolve_attribute_value_plan.simps [simp del]

section \<open>Binding and evaluating\<close>

definition resolve_planned_attribute_value :: "string \<Rightarrow> attribute_map option \<Rightarrow> update_error + attribute_value" where
  "resolve_planned_attribute_value name values =
     (case values of
        None \<Rightarrow> Inl (ValuesRequired name)
      | Some values \<Rightarrow> ok_or (ValueMissing name) (attribute_map_get values name))"

definition resolve_planned_attribute_value_ref :: "string \<Rightarrow> attribute_map option \<Rightarrow> update_error + attribute_value" where
  "resolve_planned_attribute_value_ref name values =
     (case values of
        None \<Rightarrow> Inl (ValuesRequired name)
      | Some values \<Rightarrow> ok_or (ValueMissing name) (attribute_map_get values name))"

fun bind_update_value_plan :: "update_value_plan \<Rightarrow> attribute_map option \<Rightarrow> update_error + update_operand" where
  "bind_update_value_plan (PPlaceholder name) values =
     ebind (resolve_planned_attribute_value name values) (\<lambda>v. Inr (OValue v))"
| "bind_update_value_plan (PLiteral value) values = Inr (OValue value)"
| "bind_update_value_plan (PPath path) values = Inr (OPath path)"
| "bind_update_value_plan (PIfNotExists path operand) values =
     ebind (bind_update_value_plan operand values) (\<lambda>operand. Inr (OIfNotExists path operand))"
| "bind_update_value_plan (PListAppend operand1 operand2) values =
     ebind (bind_update_value_plan operand1 values) (\<lambda>operand1.
     ebind (bind_update_value_plan operand2 values) (\<lambda>operand2. Inr (OListAppend operand1 operand2)))"
| "bind_update_value_plan (PArithmetic lhs operator rhs) values =
     ebind (bind_update_value_plan lhs values) (\<lambda>lhs.
     ebind (bind_update_value_plan rhs values) (\<lambda>rhs. Inr (OArithmetic lhs operator rhs)))"

fun bind_borrowed_update_value_plan :: "update_value_plan \<Rightarrow> attribute_map option \<Rightarrow> update_error + bound_update_operand" where
  "bind_borrowed_update_value_plan (PPlaceholder name) values =
     ebind (resolve_planned_attribute_value_ref name values) (\<lambda>v. Inr (BValue v))"
| "bind_borrowed_update_value_plan (PLiteral value) values = Inr (BValue value)"
| "bind_borrowed_update_value_plan (PPath path) values = Inr (BPath path)"
| "bind_borrowed_update_value_plan (PIfNotExists path operand) values =
     ebind (bind_borrowed_update_value_plan operand values) (\<lambda>operand. Inr (BIfNotExists path operand))"
| "bind_borrowed_update_value_plan (PListAppend operand1 operand2) values =
     ebind (bind_borrowed_update_value_plan operand1 values) (\<lambda>operand1.
     ebind (bind_borrowed_update_value_plan operand2 values) (\<lambda>operand2. Inr (BListAppend operand1 operand2)))"
| "bind_borrowed_update_value_plan (PArithmetic lhs operator rhs) values =
     ebind (bind_borrowed_update_value_plan lhs values) (\<lambda>lhs.
     ebind (bind_borrowed_update_value_plan rhs values) (\<lambda>rhs. Inr (BArithmetic lhs operator rhs)))"

definition bind_scalar_update_value_plan :: "update_value_plan \<Rightarrow> attribute_map option \<Rightarrow> update_error + attribute_value" where
  "bind_scalar_update_value_plan plan values =
     ebind (bind_update_value_plan plan values) (\<lambda>operand.
       case operand of OValue value \<Rightarrow> Inr value | _ \<Rightarrow> Inl NotScalar)"

definition bind_borrowed_scalar_update_value_plan :: "update_value_plan \<Rightarrow> attribute_map option \<Rightarrow> update_error + attribute_value" where
  "bind_borrowed_scalar_update_value_plan plan values =
     ebind (bind_borrowed_update_value_plan plan values) (\<lambda>operand.
       case operand of BValue value \<Rightarrow> Inr value | _ \<Rightarrow> Inl NotScalar)"

definition list_append_values :: "attribute_value \<Rightarrow> attribute_value \<Rightarrow> update_error + attribute_value" where
  "list_append_values operand1 operand2 =
     (case (operand1, operand2) of (L list1, L list2) \<Rightarrow> Inr (L (list1 @ list2)) | _ \<Rightarrow> Inl OperandType)"

definition list_append_owned_values :: "attribute_value \<Rightarrow> attribute_value \<Rightarrow> update_error + attribute_value" where
  "list_append_owned_values operand1 operand2 =
     (case (operand1, operand2) of (L list1, L list2) \<Rightarrow> Inr (L (list1 @ list2)) | _ \<Rightarrow> Inl OperandType)"

definition apply_set_arithmetic :: "attribute_value \<Rightarrow> arithmetic_operator \<Rightarrow> attribute_value \<Rightarrow> update_error + attribute_value" where
  "apply_set_arithmetic lhs operator rhs =
     (case (lhs, rhs) of
        (N lhs, N rhs) \<Rightarrow>
          ebind (case operator of OpAdd \<Rightarrow> add_arithmetic_numbers lhs rhs
                 | OpSubtract \<Rightarrow> subtract_arithmetic_numbers lhs rhs) (\<lambda>value. Inr (N value))
      | _ \<Rightarrow> Inl OperandType)"

fun evaluate_update_operand :: "attribute_map \<Rightarrow> update_operand \<Rightarrow> update_error + attribute_value" where
  "evaluate_update_operand item (OValue value) = Inr value"
| "evaluate_update_operand item (OPath path) = ok_or MissingAttribute (get_attribute_value item path)"
| "evaluate_update_operand item (OIfNotExists path operand) =
     (case get_attribute_value item path of
        Some value \<Rightarrow> Inr value
      | None \<Rightarrow> evaluate_update_operand item operand)"
| "evaluate_update_operand item (OListAppend operand1 operand2) =
     ebind (evaluate_update_operand item operand1) (\<lambda>operand1.
     ebind (evaluate_update_operand item operand2) (\<lambda>operand2.
     list_append_owned_values operand1 operand2))"
| "evaluate_update_operand item (OArithmetic lhs operator rhs) =
     ebind (evaluate_update_operand item lhs) (\<lambda>lhs.
     ebind (evaluate_update_operand item rhs) (\<lambda>rhs.
     apply_set_arithmetic lhs operator rhs))"

fun evaluate_bound_update_operand :: "attribute_map \<Rightarrow> bound_update_operand \<Rightarrow> update_error + attribute_value" where
  "evaluate_bound_update_operand item (BValue value) = Inr value"
| "evaluate_bound_update_operand item (BPath path) = ok_or MissingAttribute (get_attribute_value item path)"
| "evaluate_bound_update_operand item (BIfNotExists path operand) =
     (case get_attribute_value item path of
        Some value \<Rightarrow> Inr value
      | None \<Rightarrow> evaluate_bound_update_operand item operand)"
| "evaluate_bound_update_operand item (BListAppend operand1 operand2) =
     ebind (evaluate_bound_update_operand item operand1) (\<lambda>operand1.
     ebind (evaluate_bound_update_operand item operand2) (\<lambda>operand2.
     list_append_owned_values operand1 operand2))"
| "evaluate_bound_update_operand item (BArithmetic lhs operator rhs) =
     ebind (evaluate_bound_update_operand item lhs) (\<lambda>lhs.
     ebind (evaluate_bound_update_operand item rhs) (\<lambda>rhs.
     apply_set_arithmetic lhs operator rhs))"

definition evaluate_bound_set_arithmetic :: "attribute_map \<Rightarrow> bound_update_operand \<Rightarrow> arithmetic_operator
    \<Rightarrow> bound_update_operand \<Rightarrow> update_error + attribute_value" where
  "evaluate_bound_set_arithmetic item lhs operator rhs =
     ebind (evaluate_bound_update_operand item lhs) (\<lambda>lhs.
     ebind (evaluate_bound_update_operand item rhs) (\<lambda>rhs.
     apply_set_arithmetic lhs operator rhs))"

section \<open>Borrowed and owned operands\<close>

text \<open>The owned operand that a borrowed operand stands for.\<close>

fun own :: "bound_update_operand \<Rightarrow> update_operand" where
  "own (BValue value) = OValue value"
| "own (BPath path) = OPath path"
| "own (BIfNotExists path operand) = OIfNotExists path (own operand)"
| "own (BListAppend operand1 operand2) = OListAppend (own operand1) (own operand2)"
| "own (BArithmetic lhs operator rhs) = OArithmetic (own lhs) operator (own rhs)"

lemma own_eq_OValue [simp]: "own b = OValue v \<longleftrightarrow> b = BValue v"
  by (cases b) auto

lemma bind_own: "bind_update_value_plan plan values = ebind (bind_borrowed_update_value_plan plan values) (\<lambda>b. Inr (own b))"
  by (induction plan)
    (simp_all add: ebind_def resolve_planned_attribute_value_def resolve_planned_attribute_value_ref_def split: sum.splits)

lemma bind_scalar_borrowed: "bind_scalar_update_value_plan plan values = bind_borrowed_scalar_update_value_plan plan values"
  by (simp add: bind_scalar_update_value_plan_def bind_borrowed_scalar_update_value_plan_def bind_own ebind_def
    split: sum.splits bound_update_operand.splits)

lemma evaluate_own: "evaluate_bound_update_operand item b = evaluate_update_operand item (own b)"
  by (induction b) (simp_all split: option.splits)

lemma list_append_owned: "list_append_owned_values = list_append_values"
  by (intro ext) (simp add: list_append_owned_values_def list_append_values_def)

end
