(* ===== verification/Update_Apply.thy ===== *)
theory Update_Apply
  imports Update_Value Value_Meaning
begin

text \<open>
  Operations of update expressions (\<open>update_logic/logic.rs\<close>): the owned and the borrowing operations,
  the binding of a plan to the values of a request, the four phases in which the operations are applied
  to an item, and the theorem that the two kinds of operations do the same.

  An operation returns the updated item or an error; the callers drop the item when there is an error.
\<close>

section \<open>Operations\<close>

datatype update_operation =
    USet string attribute_value
  | USetExpression string update_operand
  | USetIfNotExists string string attribute_value
  | USetListAppend string attribute_value attribute_value
  | UAdd string attribute_value
  | URemove string
  | UDelete string attribute_value

fun update_field_name :: "update_operation \<Rightarrow> string" where
  "update_field_name (UAdd field _) = field"
| "update_field_name (UDelete field _) = field"
| "update_field_name (USet field _) = field"
| "update_field_name (USetExpression field _) = field"
| "update_field_name (USetIfNotExists field _ _) = field"
| "update_field_name (USetListAppend field _ _) = field"
| "update_field_name (URemove field) = field"

datatype bound_update_operation =
    BSet string attribute_value
  | BSetExpression string bound_update_operand
  | BSetArithmetic string bound_update_operand bound_update_operand arithmetic_operator
  | BSetIfNotExists string string attribute_value
  | BSetListAppend string attribute_value attribute_value
  | BAdd string attribute_value
  | BRemove string
  | BDelete string attribute_value

fun bound_field_name :: "bound_update_operation \<Rightarrow> string" where
  "bound_field_name (BAdd field _) = field"
| "bound_field_name (BDelete field _) = field"
| "bound_field_name (BSet field _) = field"
| "bound_field_name (BSetArithmetic field _ _ _) = field"
| "bound_field_name (BSetExpression field _) = field"
| "bound_field_name (BSetIfNotExists field _ _) = field"
| "bound_field_name (BSetListAppend field _ _) = field"
| "bound_field_name (BRemove field) = field"

datatype update_operation_plan =
    PlanSet string update_value_plan
  | PlanAdd string update_value_plan
  | PlanRemove string
  | PlanDelete string update_value_plan

section \<open>Binding\<close>

fun set_of_operand :: "string \<Rightarrow> update_operand \<Rightarrow> update_operation" where
  "set_of_operand field (OValue value) = USet field value"
| "set_of_operand field (OIfNotExists path (OValue operand)) = USetIfNotExists field path operand"
| "set_of_operand field (OListAppend (OValue operand1) (OValue operand2)) = USetListAppend field operand1 operand2"
| "set_of_operand field value = USetExpression field value"

fun bind_operation_plan :: "attribute_map option \<Rightarrow> update_operation_plan \<Rightarrow> update_error + update_operation" where
  "bind_operation_plan values (PlanSet field value) =
     ebind (bind_update_value_plan value values) (\<lambda>operand. Inr (set_of_operand field operand))"
| "bind_operation_plan values (PlanAdd field value) =
     ebind (bind_scalar_update_value_plan value values) (\<lambda>value. Inr (UAdd field value))"
| "bind_operation_plan values (PlanRemove field) = Inr (URemove field)"
| "bind_operation_plan values (PlanDelete field value) =
     ebind (bind_scalar_update_value_plan value values) (\<lambda>value. Inr (UDelete field value))"

text \<open>A loop that pushes one result per element and stops at the first error.\<close>

fun try_map :: "('a \<Rightarrow> 'e + 'b) \<Rightarrow> 'a list \<Rightarrow> 'e + 'b list" where
  "try_map f [] = Inr []"
| "try_map f (x # xs) = ebind (f x) (\<lambda>y. ebind (try_map f xs) (\<lambda>ys. Inr (y # ys)))"

definition bind_update_expression_plan :: "update_operation_plan list \<Rightarrow> attribute_map option
    \<Rightarrow> update_error + update_operation list" where
  "bind_update_expression_plan plan values = try_map (bind_operation_plan values) plan"

fun bound_set_of_operand :: "string \<Rightarrow> bound_update_operand \<Rightarrow> bound_update_operation" where
  "bound_set_of_operand field (BValue value) = BSet field value"
| "bound_set_of_operand field (BIfNotExists path (BValue operand)) = BSetIfNotExists field path operand"
| "bound_set_of_operand field (BListAppend (BValue operand1) (BValue operand2)) = BSetListAppend field operand1 operand2"
| "bound_set_of_operand field value = BSetExpression field value"

fun plan_is_scalar :: "update_value_plan \<Rightarrow> bool" where
  "plan_is_scalar (PPlaceholder _) = True"
| "plan_is_scalar (PLiteral _) = True"
| "plan_is_scalar _ = False"

fun bind_borrowed_operation_plan :: "attribute_map option \<Rightarrow> update_operation_plan \<Rightarrow> update_error + bound_update_operation" where
  "bind_borrowed_operation_plan values (PlanSet field value) =
     (case value of
        PArithmetic lhs operator rhs \<Rightarrow>
          ebind (bind_borrowed_update_value_plan lhs values) (\<lambda>lhs.
          ebind (bind_borrowed_update_value_plan rhs values) (\<lambda>rhs.
          Inr (BSetArithmetic field lhs rhs operator)))
      | PIfNotExists path operand \<Rightarrow>
          if plan_is_scalar operand then
            ebind (bind_borrowed_scalar_update_value_plan operand values) (\<lambda>operand.
            Inr (BSetIfNotExists field path operand))
          else ebind (bind_borrowed_update_value_plan value values) (\<lambda>operand. Inr (bound_set_of_operand field operand))
      | PListAppend operand1 operand2 \<Rightarrow>
          if plan_is_scalar operand1 \<and> plan_is_scalar operand2 then
            ebind (bind_borrowed_scalar_update_value_plan operand1 values) (\<lambda>operand1.
            ebind (bind_borrowed_scalar_update_value_plan operand2 values) (\<lambda>operand2.
            Inr (BSetListAppend field operand1 operand2)))
          else ebind (bind_borrowed_update_value_plan value values) (\<lambda>operand. Inr (bound_set_of_operand field operand))
      | _ \<Rightarrow> ebind (bind_borrowed_update_value_plan value values) (\<lambda>operand. Inr (bound_set_of_operand field operand)))"
| "bind_borrowed_operation_plan values (PlanAdd field value) =
     ebind (bind_borrowed_scalar_update_value_plan value values) (\<lambda>value. Inr (BAdd field value))"
| "bind_borrowed_operation_plan values (PlanRemove field) = Inr (BRemove field)"
| "bind_borrowed_operation_plan values (PlanDelete field value) =
     ebind (bind_borrowed_scalar_update_value_plan value values) (\<lambda>value. Inr (BDelete field value))"

definition bind_borrowed_update_expression_plan :: "update_operation_plan list \<Rightarrow> attribute_map option
    \<Rightarrow> update_error + bound_update_operation list" where
  "bind_borrowed_update_expression_plan plan values = try_map (bind_borrowed_operation_plan values) plan"

section \<open>Applying operations\<close>

text \<open>The caller drops the item when an operation fails.\<close>

definition keep_item :: "(update_error + unit) \<times> attribute_map \<Rightarrow> update_error + attribute_map" where
  "keep_item r = ebind (fst r) (\<lambda>_. Inr (snd r))"

definition numeric_set_members_equal :: "string \<Rightarrow> string \<Rightarrow> bool" where
  "numeric_set_members_equal left right = is_ok_and (compare_dynamodb_numbers left right) is_eq"

definition append_unique_values :: "string list \<Rightarrow> string list \<Rightarrow> string list" where
  "append_unique_values existing values_to_add =
     foldl (\<lambda>existing value. if value \<in> set existing then existing else existing @ [value]) existing values_to_add"

definition append_unique_numbers :: "string list \<Rightarrow> string list \<Rightarrow> string list" where
  "append_unique_numbers existing values_to_add =
     foldl (\<lambda>existing value. if list_ex (\<lambda>e. numeric_set_members_equal e value) existing then existing
       else existing @ [value]) existing values_to_add"

definition remove_set_members :: "string list \<Rightarrow> string list \<Rightarrow> string list" where
  "remove_set_members existing_set delete_set = filter (\<lambda>item. \<not> list_ex (\<lambda>d. item = d) delete_set) existing_set"

fun attribute_value_type_name :: "attribute_value \<Rightarrow> string" where
  "attribute_value_type_name (S _) = ''S''"
| "attribute_value_type_name (N _) = ''N''"
| "attribute_value_type_name (B _) = ''B''"
| "attribute_value_type_name (SS _) = ''SS''"
| "attribute_value_type_name (NS _) = ''NS''"
| "attribute_value_type_name (BS _) = ''BS''"
| "attribute_value_type_name (BOOL _) = ''BOOL''"
| "attribute_value_type_name (NULL _) = ''NULL''"
| "attribute_value_type_name (L _) = ''L''"
| "attribute_value_type_name (M _) = ''M''"

fun validate_add_operand :: "string \<Rightarrow> attribute_value \<Rightarrow> update_error + unit" where
  "validate_add_operand field (N num) = validate_add_number field num"
| "validate_add_operand field (SS values) = (if values = [] then Inl (EmptyAddOperand field) else Inr ())"
| "validate_add_operand field (NS values) = (if values = [] then Inl (EmptyAddOperand field) else Inr ())"
| "validate_add_operand field (BS values) = (if values = [] then Inl (EmptyAddOperand field) else Inr ())"
| "validate_add_operand field value = Inl (AddOperandKind field (attribute_value_type_name value))"

definition update_field_is_top_level :: "string \<Rightarrow> bool" where
  "update_field_is_top_level field \<longleftrightarrow> \<not> list_ex (\<lambda>byte. byte = CHR ''.'' \<or> byte = CHR ''['') field"

definition added_value :: "string \<Rightarrow> attribute_value \<Rightarrow> attribute_value \<Rightarrow> update_error + attribute_value" where
  "added_value field existing value =
     (case (existing, value) of
        (N existing_num, N add_num) \<Rightarrow>
          ebind (parse_add_number field add_num) (\<lambda>parsed.
          ebind (add_add_expression_with_rhs field existing_num parsed) (\<lambda>num. Inr (N num)))
      | (SS existing_set, SS add_set) \<Rightarrow> Inr (SS (append_unique_values existing_set add_set))
      | (BS existing_set, BS add_set) \<Rightarrow> Inr (BS (append_unique_values existing_set add_set))
      | (NS existing_set, NS add_set) \<Rightarrow> Inr (NS (append_unique_numbers existing_set add_set))
      | _ \<Rightarrow> Inl OperandType)"

definition apply_add_operation :: "string \<Rightarrow> attribute_value \<Rightarrow> attribute_map \<Rightarrow> update_error + attribute_map" where
  "apply_add_operation field value item =
     ebind (case value of N number \<Rightarrow> ebind (parse_add_number field number) (\<lambda>_. Inr ())
            | _ \<Rightarrow> validate_add_operand field value) (\<lambda>_.
     (case get_attribute_value item field of
        None \<Rightarrow>
          if update_field_is_top_level field then Inr (attribute_map_insert item field value)
          else keep_item (set_attribute_value item field value)
      | Some existing \<Rightarrow>
          ebind (added_value field existing value) (\<lambda>updated_value.
          keep_item (set_attribute_value item field updated_value))))"

definition apply_delete_set_operation :: "attribute_value \<Rightarrow> attribute_value \<Rightarrow> update_error + attribute_value \<times> bool" where
  "apply_delete_set_operation existing_value delete_value =
     (case (existing_value, delete_value) of
        (SS existing_set, SS delete_set) \<Rightarrow>
          let kept = remove_set_members existing_set delete_set in Inr (SS kept, kept = [])
      | (BS existing_set, BS delete_set) \<Rightarrow>
          let kept = remove_set_members existing_set delete_set in Inr (BS kept, kept = [])
      | (NS existing_set, NS delete_set) \<Rightarrow>
          let kept = filter (\<lambda>e. \<not> list_ex (\<lambda>value. numeric_set_members_equal e value) delete_set) existing_set in
          Inr (NS kept, kept = [])
      | _ \<Rightarrow> Inl OperandType)"

definition apply_delete_operation :: "string \<Rightarrow> attribute_value \<Rightarrow> attribute_map \<Rightarrow> update_error + attribute_map" where
  "apply_delete_operation field value item =
     (case attribute_map_remove item field of
        (item, None) \<Rightarrow> Inr item
      | (item, Some existing_value) \<Rightarrow>
          ebind (apply_delete_set_operation existing_value value) (\<lambda>(existing_value, remove_attribute).
          if remove_attribute then Inr item else Inr (attribute_map_insert item field existing_value)))"

text \<open>A loop over the operations that stops at the first error.\<close>

fun try_fold :: "('a \<Rightarrow> 's \<Rightarrow> 'e + 's) \<Rightarrow> 'a list \<Rightarrow> 's \<Rightarrow> 'e + 's" where
  "try_fold f [] s = Inr s"
| "try_fold f (x # xs) s = ebind (f x s) (try_fold f xs)"

fun set_step :: "update_operation \<Rightarrow> attribute_map \<Rightarrow> update_error + attribute_map" where
  "set_step (USet field value) item = keep_item (set_attribute_value item field value)"
| "set_step (USetExpression field value) item =
     ebind (evaluate_update_operand item value) (\<lambda>value. keep_item (set_attribute_value item field value))"
| "set_step (USetIfNotExists field path operand) item =
     (case get_attribute_value item path of
        Some existing_value \<Rightarrow> keep_item (set_attribute_value item field existing_value)
      | None \<Rightarrow> keep_item (set_attribute_value item field operand))"
| "set_step (USetListAppend field operand1 operand2) item =
     ebind (list_append_values operand1 operand2) (\<lambda>result. keep_item (set_attribute_value item field result))"
| "set_step _ item = Inr item"

fun remove_step :: "update_operation \<Rightarrow> attribute_map \<Rightarrow> update_error + attribute_map" where
  "remove_step (URemove field) item = keep_item (remove_attribute_value item field)"
| "remove_step _ item = Inr item"

fun add_step :: "update_operation \<Rightarrow> attribute_map \<Rightarrow> update_error + attribute_map" where
  "add_step (UAdd field value) item = apply_add_operation field value item"
| "add_step _ item = Inr item"

fun delete_step :: "update_operation \<Rightarrow> attribute_map \<Rightarrow> update_error + attribute_map" where
  "delete_step (UDelete field value) item = apply_delete_operation field value item"
| "delete_step _ item = Inr item"

definition apply_update_operations :: "attribute_map \<Rightarrow> update_operation list \<Rightarrow> update_error + attribute_map" where
  "apply_update_operations item operations =
     ebind (try_fold set_step operations item) (\<lambda>item.
     ebind (try_fold remove_step operations item) (\<lambda>item.
     ebind (try_fold add_step operations item) (\<lambda>item.
     try_fold delete_step operations item)))"

fun bound_set_step :: "bound_update_operation \<Rightarrow> attribute_map \<Rightarrow> update_error + attribute_map" where
  "bound_set_step (BSet field value) item = keep_item (set_attribute_value item field value)"
| "bound_set_step (BSetExpression field value) item =
     ebind (evaluate_bound_update_operand item value) (\<lambda>value. keep_item (set_attribute_value item field value))"
| "bound_set_step (BSetArithmetic field lhs rhs operator) item =
     ebind (evaluate_bound_set_arithmetic item lhs operator rhs) (\<lambda>value. keep_item (set_attribute_value item field value))"
| "bound_set_step (BSetIfNotExists field path operand) item =
     (case get_attribute_value item path of
        Some existing_value \<Rightarrow> keep_item (set_attribute_value item field existing_value)
      | None \<Rightarrow> keep_item (set_attribute_value item field operand))"
| "bound_set_step (BSetListAppend field operand1 operand2) item =
     ebind (list_append_values operand1 operand2) (\<lambda>result. keep_item (set_attribute_value item field result))"
| "bound_set_step _ item = Inr item"

fun bound_remove_step :: "bound_update_operation \<Rightarrow> attribute_map \<Rightarrow> update_error + attribute_map" where
  "bound_remove_step (BRemove field) item = keep_item (remove_attribute_value item field)"
| "bound_remove_step _ item = Inr item"

fun bound_add_step :: "bound_update_operation \<Rightarrow> attribute_map \<Rightarrow> update_error + attribute_map" where
  "bound_add_step (BAdd field value) item = apply_add_operation field value item"
| "bound_add_step _ item = Inr item"

fun bound_delete_step :: "bound_update_operation \<Rightarrow> attribute_map \<Rightarrow> update_error + attribute_map" where
  "bound_delete_step (BDelete field value) item = apply_delete_operation field value item"
| "bound_delete_step _ item = Inr item"

definition apply_bound_update_operations :: "attribute_map \<Rightarrow> bound_update_operation list \<Rightarrow> update_error + attribute_map" where
  "apply_bound_update_operations item operations =
     ebind (try_fold bound_set_step operations item) (\<lambda>item.
     ebind (try_fold bound_remove_step operations item) (\<lambda>item.
     ebind (try_fold bound_add_step operations item) (\<lambda>item.
     try_fold bound_delete_step operations item)))"

section \<open>Bound operations do what owned operations do\<close>

text \<open>A bound operation and an owned operation that have the same effect in every phase.\<close>

fun same_operation :: "bound_update_operation \<Rightarrow> update_operation \<Rightarrow> bool" where
  "same_operation (BSetArithmetic field lhs rhs operator) u \<longleftrightarrow> u = USetExpression field (OArithmetic (own lhs) operator (own rhs))"
| "same_operation (BSet field value) u \<longleftrightarrow> u = USet field value"
| "same_operation (BSetExpression field value) u \<longleftrightarrow> u = USetExpression field (own value)"
| "same_operation (BSetIfNotExists field path operand) u \<longleftrightarrow> u = USetIfNotExists field path operand"
| "same_operation (BSetListAppend field operand1 operand2) u \<longleftrightarrow> u = USetListAppend field operand1 operand2"
| "same_operation (BAdd field value) u \<longleftrightarrow> u = UAdd field value"
| "same_operation (BRemove field) u \<longleftrightarrow> u = URemove field"
| "same_operation (BDelete field value) u \<longleftrightarrow> u = UDelete field value"

lemma same_operation_steps:
  assumes "same_operation b u"
  shows "bound_set_step b item = set_step u item" "bound_remove_step b item = remove_step u item"
    "bound_add_step b item = add_step u item" "bound_delete_step b item = delete_step u item"
    "bound_field_name b = update_field_name u"
  using assms by (cases b; simp add: evaluate_own evaluate_bound_set_arithmetic_def ebind_assoc)+

lemma bound_set_own: "same_operation (bound_set_of_operand field b) (set_of_operand field (own b))"
proof (cases b)
  case (BIfNotExists path operand)
  then show ?thesis by (cases operand) simp_all
next
  case (BListAppend operand1 operand2)
  then show ?thesis by (cases operand1; cases operand2) simp_all
qed simp_all

lemma scalar_plan_binds:
  "plan_is_scalar plan \<Longrightarrow> bind_borrowed_update_value_plan plan values = ebind (bind_borrowed_scalar_update_value_plan plan values) (\<lambda>v. Inr (BValue v))"
  by (cases plan) (auto simp: bind_borrowed_scalar_update_value_plan_def ebind_def split: sum.splits)

definition same_binding :: "update_error + bound_update_operation \<Rightarrow> update_error + update_operation \<Rightarrow> bool" where
  "same_binding b u \<longleftrightarrow>
     (case (b, u) of (Inl e, Inl e') \<Rightarrow> e = e' | (Inr b, Inr u) \<Rightarrow> same_operation b u | _ \<Rightarrow> False)"

lemma same_binding_operand:
  "same_binding (ebind r (\<lambda>b. Inr (bound_set_of_operand field b)))
     (ebind (ebind r (\<lambda>b. Inr (own b))) (\<lambda>operand. Inr (set_of_operand field operand)))"
  by (cases r) (simp_all add: same_binding_def bound_set_own)

lemma bind_operation_same: "same_binding (bind_borrowed_operation_plan values p) (bind_operation_plan values p)"
proof (cases p)
  case (PlanSet field v)
  show ?thesis
  proof (cases v)
    case (PIfNotExists path operand)
    then show ?thesis using PlanSet same_binding_operand [of "bind_borrowed_update_value_plan v values" field]
      by (cases "bind_borrowed_scalar_update_value_plan operand values")
        (auto simp: bind_own scalar_plan_binds same_binding_def)
  next
    case (PListAppend operand1 operand2)
    then show ?thesis using PlanSet same_binding_operand [of "bind_borrowed_update_value_plan v values" field]
      by (cases "bind_borrowed_scalar_update_value_plan operand1 values";
          cases "bind_borrowed_scalar_update_value_plan operand2 values")
        (auto simp: bind_own scalar_plan_binds same_binding_def)
  next
    case (PArithmetic lhs operator rhs)
    then show ?thesis using PlanSet
      by (cases "bind_borrowed_update_value_plan lhs values"; cases "bind_borrowed_update_value_plan rhs values")
        (simp_all add: bind_own same_binding_def)
  qed (use PlanSet same_binding_operand [of "bind_borrowed_update_value_plan v values" field] in \<open>simp_all add: bind_own\<close>)
qed (simp_all add: bind_scalar_borrowed same_binding_def ebind_def split: sum.splits)

lemma bind_plan_same:
  "case (try_map (bind_borrowed_operation_plan values) plan, try_map (bind_operation_plan values) plan) of
     (Inl e, Inl e') \<Rightarrow> e = e' | (Inr bs, Inr us) \<Rightarrow> list_all2 same_operation bs us | _ \<Rightarrow> False"
proof (induction plan)
  case (Cons p plan)
  then show ?case using bind_operation_same [of "values" p]
    by (auto simp: same_binding_def ebind_def split: sum.splits)
qed simp

lemma try_fold_same:
  "list_all2 R bs us \<Longrightarrow> (\<And>b u s. R b u \<Longrightarrow> f b s = g u s) \<Longrightarrow> try_fold f bs s = try_fold g us s"
proof (induction arbitrary: s rule: list_all2_induct)
  case (Cons b bs u us)
  then show ?case by (cases "g u s") simp_all
qed simp

lemma apply_same:
  "list_all2 same_operation bs us \<Longrightarrow> apply_bound_update_operations item bs = apply_update_operations item us"
  by (simp add: apply_bound_update_operations_def apply_update_operations_def same_operation_steps
    try_fold_same [of same_operation bs us bound_set_step set_step]
    try_fold_same [of same_operation bs us bound_remove_step remove_step]
    try_fold_same [of same_operation bs us bound_add_step add_step]
    try_fold_same [of same_operation bs us bound_delete_step delete_step])

text \<open>
  C5: An update that borrows the values of the request (the path of \<open>before_update_item\<close>) gives the
  item or the error that the update with copied values gives, for every plan, request and item, and it
  reports the same fields as updated.
\<close>

theorem bound_update_refines:
  "ebind (bind_borrowed_update_expression_plan plan values) (\<lambda>ops.
     ebind (apply_bound_update_operations item ops) (\<lambda>item. Inr (item, map bound_field_name ops)))
   = ebind (bind_update_expression_plan plan values) (\<lambda>ops.
     ebind (apply_update_operations item ops) (\<lambda>item. Inr (item, map update_field_name ops)))"
proof -
  have names: "list_all2 same_operation bs us \<Longrightarrow> map bound_field_name bs = map update_field_name us" for bs us
    by (induction rule: list_all2_induct) (simp_all add: same_operation_steps(5))
  show ?thesis
    using bind_plan_same [of "values" plan] apply_same [of _ _ item] names
    unfolding bind_borrowed_update_expression_plan_def bind_update_expression_plan_def
    by (cases "try_map (bind_borrowed_operation_plan values) plan"; cases "try_map (bind_operation_plan values) plan")
      simp_all
qed

end
