(* ===== verification/Update_Shape.thy ===== *)
theory Update_Shape
  imports Update_Apply
begin

text \<open>
  The shape of items: which values evaluation and updates store, and the theorem that an update keeps
  an item well formed.
\<close>

section \<open>What evaluation stores\<close>

definition decimal_text :: "string \<Rightarrow> bool" where
  "decimal_text s \<longleftrightarrow> (\<exists>l. wf_literal l \<and> s = literal_text l)"

text \<open>
  The shape of a stored value. It is that of a well-formed value, except that a number only has to be a
  decimal literal: arithmetic does not bound the number of its digits.
\<close>

fun stored_ok :: "attribute_value \<Rightarrow> bool" where
  "stored_ok (N n) \<longleftrightarrow> decimal_text n"
| "stored_ok (SS ss) \<longleftrightarrow> distinct ss"
| "stored_ok (NS ns) \<longleftrightarrow> list_all number_text ns \<and> distinct (map text_value ns)"
| "stored_ok (BS bs) \<longleftrightarrow> distinct bs"
| "stored_ok (L l) \<longleftrightarrow> list_all stored_ok l"
| "stored_ok (M m) \<longleftrightarrow> keys_distinct m \<and> list_all (\<lambda>(k, v). stored_ok v) m"
| "stored_ok (S _) \<longleftrightarrow> True"
| "stored_ok (B _) \<longleftrightarrow> True"
| "stored_ok (BOOL _) \<longleftrightarrow> True"
| "stored_ok (NULL _) \<longleftrightarrow> True"

interpretation stored: value_invariant stored_ok
  by unfold_locales simp_all

lemma number_text_decimal: "number_text s \<Longrightarrow> decimal_text s"
proof -
  assume s: "number_text s"
  obtain n where "parse s = Inr n" using number_text_parse [OF s] .
  moreover have "addressable s" using s by (simp add: number_text_def)
  ultimately obtain l where "wf_literal l" "literal_text l = s"
    using parse_value_of_text [of s n] by (auto simp: parse_iff_decimal)
  then show "decimal_text s" by (auto simp: decimal_text_def)
qed

lemma wf_stored: "wf_value v \<Longrightarrow> stored_ok v"
  by (induction v rule: stored_ok.induct) (auto simp: number_text_decimal wf_value.simps list_all_iff)

lemma scan_mantissa_digits:
  "scan_mantissa chars digits fractional after = Inr (ds, f) \<Longrightarrow> digits_ok digits \<Longrightarrow> digits_ok ds"
  by (induction chars digits fractional after rule: scan_mantissa.induct)
    (auto simp: result_simps digits_ok_def digit_val_le split: if_splits)

lemma finish_decimal_shape: "finish_decimal x = Inr d \<Longrightarrow> digits_ok (dd_digits x) \<Longrightarrow> d = dd_zero \<or> normal d"
  by (auto simp: finish_decimal_def result_simps dest: normalized_shape)

lemma parse_decimal_shape: "parse_decimal s = Inr d \<Longrightarrow> d = dd_zero \<or> normal d"
  by (auto simp: parse_decimal_def Let_def result_simps digits_ok_def
    dest!: finish_decimal_shape scan_mantissa_digits split: if_splits prod.splits)

lemma digits_ok_zero: "digits_ok (dd_digits dd_zero)"
  by (simp add: dd_zero_def digits_ok_def)

lemma subtract_with_sign_digits:
  "digits_ok (dd_digits a) \<Longrightarrow> digits_ok (dd_digits b) \<Longrightarrow> digits_ok (dd_digits (subtract_abs_with_sign a b))"
  by (auto simp: subtract_abs_with_sign_def subtract_digits_ok digits_ok_zero Let_def split: ordering.splits)

lemma dd_add_shape:
  assumes "digits_ok (dd_digits a)" "digits_ok (dd_digits b)"
  shows "dd_add a b = Inr d \<Longrightarrow> d = dd_zero \<or> normal d" "dd_subtract a b = Inr d \<Longrightarrow> d = dd_zero \<or> normal d"
  using finish_decimal_shape add_abs_val(2) [OF assms] subtract_with_sign_digits [OF assms]
  by (auto simp: dd_add_def dd_subtract_def Let_def dest!: finish_decimal_shape split: if_splits)

lemma format_decimal_text: "dd_format d = Inr s \<Longrightarrow> d = dd_zero \<or> normal d \<Longrightarrow> decimal_text s"
  using format_literal [of d] literal_of_wf [of d]
  by (cases "validate_range d") (auto simp: decimal_text_def dd_format_def)

lemma parse_decimal_digits: "parse_decimal s = Inr d \<Longrightarrow> digits_ok (dd_digits d)"
  by (rule decimal_ok [OF parse_decimal_shape])

lemma sum_decimal_text:
  assumes "digits_ok (dd_digits a)" "digits_ok (dd_digits b)"
  shows "dd_add a b = Inr d \<Longrightarrow> dd_format d = Inr s \<Longrightarrow> decimal_text s"
    "dd_subtract a b = Inr d \<Longrightarrow> dd_format d = Inr s \<Longrightarrow> decimal_text s"
  using dd_add_shape [OF assms] format_decimal_text by blast+

lemma arithmetic_decimal_text:
  "add_arithmetic_numbers a b = Inr s \<Longrightarrow> decimal_text s"
  "subtract_arithmetic_numbers a b = Inr s \<Longrightarrow> decimal_text s"
  by (auto simp: add_arithmetic_numbers_def subtract_arithmetic_numbers_def result_simps
    dest!: parse_decimal_digits intro: sum_decimal_text)

lemma parse_add_number_digits: "parse_add_number field s = Inr d \<Longrightarrow> digits_ok (dd_digits d)"
  by (auto simp: parse_add_number_def map_err_def intro: parse_decimal_digits split: sum.splits)

lemma add_expression_decimal_text:
  "add_add_expression_with_rhs field lhs rhs = Inr s \<Longrightarrow> digits_ok (dd_digits rhs) \<Longrightarrow> decimal_text s"
  by (auto simp: add_add_expression_with_rhs_def result_simps dest!: parse_add_number_digits intro: sum_decimal_text(1))

fun value_operand_ok :: "update_operand \<Rightarrow> bool" where
  "value_operand_ok (OValue value) \<longleftrightarrow> stored_ok value"
| "value_operand_ok (OPath path) \<longleftrightarrow> True"
| "value_operand_ok (OIfNotExists path operand) \<longleftrightarrow> value_operand_ok operand"
| "value_operand_ok (OListAppend operand1 operand2) \<longleftrightarrow> value_operand_ok operand1 \<and> value_operand_ok operand2"
| "value_operand_ok (OArithmetic lhs operator rhs) \<longleftrightarrow> value_operand_ok lhs \<and> value_operand_ok rhs"

lemma list_append_ok: "list_append_values a b = Inr v \<Longrightarrow> stored_ok a \<Longrightarrow> stored_ok b \<Longrightarrow> stored_ok v"
  by (auto simp: list_append_values_def split: attribute_value.splits)

lemma arithmetic_ok: "apply_set_arithmetic a op b = Inr v \<Longrightarrow> stored_ok v"
  by (auto simp: apply_set_arithmetic_def result_simps arithmetic_decimal_text
    split: attribute_value.splits arithmetic_operator.splits)

lemma evaluate_ok:
  "evaluate_update_operand item operand = Inr v \<Longrightarrow> stored_ok (M item) \<Longrightarrow> value_operand_ok operand \<Longrightarrow> stored_ok v"
  by (induction operand arbitrary: v)
    (auto simp: result_simps list_append_owned simp del: stored_ok.simps(6)
      dest: stored.get_attribute_value_ok list_append_ok arithmetic_ok split: option.splits)

section \<open>The shape of the item\<close>

fun operation_ok :: "update_operation \<Rightarrow> bool" where
  "operation_ok (USet field value) \<longleftrightarrow> stored_ok value"
| "operation_ok (USetExpression field operand) \<longleftrightarrow> value_operand_ok operand"
| "operation_ok (USetIfNotExists field path operand) \<longleftrightarrow> stored_ok operand"
| "operation_ok (USetListAppend field operand1 operand2) \<longleftrightarrow> stored_ok operand1 \<and> stored_ok operand2"
| "operation_ok (UAdd field value) \<longleftrightarrow> stored_ok value"
| "operation_ok (URemove field) \<longleftrightarrow> True"
| "operation_ok (UDelete field value) \<longleftrightarrow> stored_ok value"

declare stored_ok.simps(6) [simp del]

lemma keep_item_ok: "keep_item r = Inr item \<Longrightarrow> item = snd r"
  by (auto simp: keep_item_def result_simps)

lemma set_keeps: "keep_item (set_attribute_value item field v) = Inr item' \<Longrightarrow> stored_ok (M item) \<Longrightarrow> stored_ok v \<Longrightarrow> stored_ok (M item')"
  by (auto dest!: keep_item_ok intro: stored.set_attribute_value_ok)

lemma set_step_ok:
  "set_step op item = Inr item' \<Longrightarrow> stored_ok (M item) \<Longrightarrow> operation_ok op \<Longrightarrow> stored_ok (M item')"
  by (cases op) (auto simp: result_simps dest: stored.get_attribute_value_ok evaluate_ok list_append_ok
    intro: set_keeps split: option.splits)

lemma remove_step_ok: "remove_step op item = Inr item' \<Longrightarrow> stored_ok (M item) \<Longrightarrow> stored_ok (M item')"
  by (cases op) (auto dest!: keep_item_ok intro: stored.remove_attribute_value_ok)

lemma append_unique_values_members:
  "set (append_unique_values a b) = set a \<union> set b" "distinct a \<Longrightarrow> distinct (append_unique_values a b)"
  unfolding append_unique_values_def by (induction b arbitrary: a) (auto simp: insert_absorb)

lemma numeric_equal_iff:
  "number_text a \<Longrightarrow> number_text b \<Longrightarrow> numeric_set_members_equal a b \<longleftrightarrow> text_value a = text_value b"
  by (simp add: numeric_set_members_equal_def number_equal_iff)

lemma numeric_member_iff:
  "number_text b \<Longrightarrow> list_all number_text a \<Longrightarrow> list_ex (\<lambda>e. numeric_set_members_equal e b) a \<longleftrightarrow> text_value b \<in> text_value ` set a"
  by (auto simp: list_ex_iff list_all_iff numeric_equal_iff image_iff) metis

lemma append_unique_numbers_members:
  assumes "list_all number_text a" "list_all number_text b"
  shows "list_all number_text (append_unique_numbers a b)
    \<and> text_value ` set (append_unique_numbers a b) = text_value ` set a \<union> text_value ` set b
    \<and> (distinct (map text_value a) \<longrightarrow> distinct (map text_value (append_unique_numbers a b)))"
  using assms
proof (induction b arbitrary: a)
  case (Cons x b)
  show ?case
  proof (cases "list_ex (\<lambda>e. numeric_set_members_equal e x) a")
    case True
    then have "append_unique_numbers a (x # b) = append_unique_numbers a b" by (simp add: append_unique_numbers_def)
    moreover have "text_value x \<in> text_value ` set a" using True Cons.prems numeric_member_iff by simp
    ultimately show ?thesis using Cons.IH [of a] Cons.prems by auto
  next
    case False
    then have "append_unique_numbers a (x # b) = append_unique_numbers (a @ [x]) b" by (simp add: append_unique_numbers_def)
    moreover have "text_value x \<notin> text_value ` set a" using False Cons.prems numeric_member_iff by simp
    ultimately show ?thesis using Cons.IH [of "a @ [x]"] Cons.prems by auto
  qed
qed (simp add: append_unique_numbers_def)

lemma added_value_ok:
  "added_value field existing v = Inr new \<Longrightarrow> stored_ok existing \<Longrightarrow> stored_ok v \<Longrightarrow> stored_ok new"
  using append_unique_numbers_members
  by (auto simp: added_value_def result_simps append_unique_values_members
    dest!: add_expression_decimal_text [OF _ parse_add_number_digits] split: attribute_value.splits)

lemma add_step_ok:
  "add_step op item = Inr item' \<Longrightarrow> stored_ok (M item) \<Longrightarrow> operation_ok op \<Longrightarrow> stored_ok (M item')"
  by (cases op) (auto simp: apply_add_operation_def result_simps dest: stored.get_attribute_value_ok
    intro: set_keeps added_value_ok stored.ok_item_insert split: option.splits if_splits)

lemma distinct_map_filter_values: "distinct (map f xs) \<Longrightarrow> distinct (map f (filter P xs))"
  by (induction xs) auto

lemma delete_set_ok: "apply_delete_set_operation existing v = Inr (kept, b) \<Longrightarrow> stored_ok existing \<Longrightarrow> stored_ok kept"
  by (auto simp: apply_delete_set_operation_def Let_def remove_set_members_def distinct_map_filter_values list_all_iff
    split: attribute_value.splits)

lemma delete_step_ok:
  assumes "delete_step op item = Inr item'" "stored_ok (M item)"
  shows "stored_ok (M item')"
proof (cases op)
  case (UDelete field v)
  obtain removed found where r: "attribute_map_remove item field = (removed, found)" by fastforce
  then show ?thesis using UDelete assms stored.ok_take [OF assms(2) r]
    by (auto simp: apply_delete_operation_def result_simps intro!: stored.ok_item_insert dest: delete_set_ok
      split: option.splits if_splits)
qed (use assms in auto)

lemma try_fold_invariant:
  "try_fold f xs s = Inr s' \<Longrightarrow> I s \<Longrightarrow> (\<And>x s s'. x \<in> set xs \<Longrightarrow> f x s = Inr s' \<Longrightarrow> I s \<Longrightarrow> I s') \<Longrightarrow> I s'"
proof (induction xs arbitrary: s)
  case (Cons x xs)
  then obtain t where "f x s = Inr t" "try_fold f xs t = Inr s'" by (auto simp: result_simps)
  then show ?case using Cons.IH [of t] Cons.prems by auto
qed simp

lemma apply_update_ok:
  assumes "apply_update_operations item ops = Inr item'" "stored_ok (M item)" "list_all operation_ok ops"
  shows "stored_ok (M item')"
proof -
  let ?I = "\<lambda>item. stored_ok (M item)"
  obtain i1 i2 i3 where s: "try_fold set_step ops item = Inr i1" "try_fold remove_step ops i1 = Inr i2"
    "try_fold add_step ops i2 = Inr i3" "try_fold delete_step ops i3 = Inr item'"
    using assms(1) by (auto simp: apply_update_operations_def result_simps)
  have ok: "x \<in> set ops \<Longrightarrow> operation_ok x" for x using assms(3) by (simp add: list_all_iff)
  have "?I i1" using try_fold_invariant [OF s(1), of ?I] assms(2) set_step_ok ok by blast
  then have "?I i2" using try_fold_invariant [OF s(2), of ?I] remove_step_ok by blast
  then have "?I i3" using try_fold_invariant [OF s(3), of ?I] add_step_ok ok by blast
  then show ?thesis using try_fold_invariant [OF s(4), of ?I] delete_step_ok by blast
qed

text \<open>Binding well-formed values gives well-formed operations.\<close>

fun plan_ok :: "update_value_plan \<Rightarrow> bool" where
  "plan_ok (PPlaceholder name) \<longleftrightarrow> True"
| "plan_ok (PLiteral value) \<longleftrightarrow> stored_ok value"
| "plan_ok (PPath path) \<longleftrightarrow> True"
| "plan_ok (PIfNotExists path operand) \<longleftrightarrow> plan_ok operand"
| "plan_ok (PListAppend operand1 operand2) \<longleftrightarrow> plan_ok operand1 \<and> plan_ok operand2"
| "plan_ok (PArithmetic lhs operator rhs) \<longleftrightarrow> plan_ok lhs \<and> plan_ok rhs"

fun operation_plan_ok :: "update_operation_plan \<Rightarrow> bool" where
  "operation_plan_ok (PlanSet field plan) \<longleftrightarrow> plan_ok plan"
| "operation_plan_ok (PlanAdd field plan) \<longleftrightarrow> plan_ok plan"
| "operation_plan_ok (PlanRemove field) \<longleftrightarrow> True"
| "operation_plan_ok (PlanDelete field plan) \<longleftrightarrow> plan_ok plan"

lemma bind_value_ok:
  assumes "case vals of None \<Rightarrow> True | Some vals \<Rightarrow> stored_ok (M vals)"
  shows "bind_update_value_plan plan vals = Inr operand \<Longrightarrow> plan_ok plan \<Longrightarrow> value_operand_ok operand"
  using assms
  by (induction plan arbitrary: operand)
    (auto simp: result_simps resolve_planned_attribute_value_def attribute_map_get_vec
      dest: stored.ok_get split: option.splits)

lemma bind_scalar_iff: "bind_scalar_update_value_plan plan vals = Inr v \<longleftrightarrow> bind_update_value_plan plan vals = Inr (OValue v)"
  by (auto simp: bind_scalar_update_value_plan_def ebind_def split: sum.splits update_operand.splits)

lemma set_of_operand_ok: "value_operand_ok operand \<Longrightarrow> operation_ok (set_of_operand field operand)"
  by (induction field operand rule: set_of_operand.induct) simp_all

lemma bind_plan_ok:
  assumes "case vals of None \<Rightarrow> True | Some vals \<Rightarrow> stored_ok (M vals)"
  shows "bind_update_expression_plan plan vals = Inr ops \<Longrightarrow> list_all operation_plan_ok plan \<Longrightarrow> list_all operation_ok ops"
  unfolding bind_update_expression_plan_def
proof (induction plan arbitrary: ops)
  case (Cons p plan)
  have "bind_operation_plan vals p = Inr op \<Longrightarrow> operation_plan_ok p \<Longrightarrow> operation_ok op" for op
    by (cases p) (auto simp: result_simps bind_scalar_iff intro: set_of_operand_ok dest!: bind_value_ok [OF assms])
  then show ?case using Cons by (auto simp: result_simps)
qed simp

text \<open>
  C12: An update keeps the shape of the item: when the names of the stored item and of every map inside it
  are distinct, its sets hold no member twice (numbers compared as numbers) and its numbers are decimal
  literals, and the values of the request and the literals of the expression are like that too, then so
  is the item that the update returns.
\<close>

theorem update_keeps_shape:
  assumes "stored_ok (M item)" "list_all operation_plan_ok plan"
    and "case vals of None \<Rightarrow> True | Some vals \<Rightarrow> stored_ok (M vals)"
    and "bind_update_expression_plan plan vals = Inr ops" "apply_update_operations item ops = Inr item'"
  shows "stored_ok (M item')"
  using assms(5,1) bind_plan_ok [OF assms(3,4,2)] by (rule apply_update_ok)

lemma sample_stored: "stored_ok (M [(''n'', N ''1''), (''s'', SS [''a'', ''b''])])"
proof -
  have "decimal_text ''1''"
    unfolding decimal_text_def
    by (rule exI [of _ "\<lparr>dl_sign = '''', dl_int = ''1'', dl_frac = None, dl_exp = None\<rparr>"])
      (simp add: wf_literal_def sign_text_def frac_digits_def literal_text_def is_ascii_digit_def)
  then show ?thesis by (simp add: stored_ok.simps)
qed

theorem update_keeps_shape_witness:
  "stored_ok (M [(''n'', N ''1''), (''s'', SS [''a'', ''b'', ''c''])])"
proof (rule update_keeps_shape [OF sample_stored, of "[PlanAdd ''s'' (PPlaceholder '':v'')]" "Some [('':v'', SS [''b'', ''c''])]"
      "[UAdd ''s'' (SS [''b'', ''c''])]"])
  show "bind_update_expression_plan [PlanAdd ''s'' (PPlaceholder '':v'')] (Some [('':v'', SS [''b'', ''c''])])
      = Inr [UAdd ''s'' (SS [''b'', ''c''])]"
    by (simp add: bind_update_expression_plan_def bind_scalar_update_value_plan_def resolve_planned_attribute_value_def
      attribute_map_get_def)
  show "apply_update_operations [(''n'', N ''1''), (''s'', SS [''a'', ''b''])] [UAdd ''s'' (SS [''b'', ''c''])]
      = Inr [(''n'', N ''1''), (''s'', SS [''a'', ''b'', ''c''])]"
    by (simp add: apply_update_operations_def apply_add_operation_def get_attribute_value_def is_top_level_path_def
      path_stop_def attribute_map_get_def added_value_def append_unique_values_def keep_item_def set_attribute_value_def
      attribute_map_insert_vec vec_map_Cons)
qed (simp_all add: stored_ok.simps)

end
