(* ===== verification/Update_Sets.thy ===== *)
theory Update_Sets
  imports Update_Shape
begin

text \<open>
  What \<open>ADD\<close> and \<open>DELETE\<close> do to sets: the stored set becomes the union or the difference, with the
  members of number sets compared as numbers, and nothing else changes.
\<close>

section \<open>Setting a path that exists\<close>

lemma landing_existing: "update_walk path v = Some x \<Longrightarrow> landing v path = path"
  by (induction v path rule: landing.induct)
    (auto simp: update_step_def min_def split: update_path_segment.splits attribute_value.splits option.splits if_splits Option.bind_splits)

lemma item_landing_existing: "update_get_path_value item path = Some x \<Longrightarrow> item_landing item path = path"
  by (cases "(item, path)" rule: update_get_path_value.cases)
    (auto simp: item_landing_def landing_existing split: option.splits Option.bind_splits)

lemma update_step_eq_Some:
  "update_step segment v = Some x \<longleftrightarrow>
    (\<exists>name m. segment = Name name \<and> v = M m \<and> vec_map_get m name = Some x)
    \<or> (\<exists>i xs. segment = Index i \<and> v = L xs \<and> i < length xs \<and> xs ! i = x)"
  by (cases segment; cases v) (auto simp: update_step_def)

lemma set_nested_existing: "path \<noteq> [] \<Longrightarrow> update_walk path v = Some x \<Longrightarrow> \<exists>v'. set_nested_path_value v path w = Inr v'"
proof (induction v path w rule: set_nested_path_value.induct)
  case (2 current segment w)
  then show ?case by (auto simp: update_step_eq_Some split: Option.bind_splits)
next
  case (3 current segment s rest w)
  obtain y where y: "update_step segment current = Some y" "update_walk (s # rest) y = Some x"
    using 3(4) by (auto split: Option.bind_splits)
  then have "\<exists>v'. set_nested_path_value y (s # rest) w = Inr v'"
    using 3(1,2) by (fastforce simp: update_step_eq_Some simp del: update_walk.simps)
  then show ?case using y(1) by (auto simp: update_step_eq_Some)
qed simp

lemma set_path_existing:
  assumes "keys_distinct item" "update_get_path_value item path = Some old"
  shows "\<exists>item'. set_path_value item path v = (Inr (), item')"
proof (cases "(item, path)" rule: update_get_path_value.cases)
  case (3 it name rest)
  obtain removed found where r: "attribute_map_remove item name = (removed, found)" by fastforce
  have "attribute_map_get item name = found" using attribute_map_take [OF assms(1) r] by simp
  then obtain current where c: "found = Some current" "update_walk rest current = Some old"
    using 3 assms(2) by (auto split: Option.bind_splits)
  show ?thesis
  proof (cases rest)
    case (Cons s segments)
    then obtain new where "set_nested_path_value current rest v = Inr new" using set_nested_existing [OF _ c(2), of v] by auto
    then show ?thesis using 3 r c(1) Cons by auto
  qed (use 3 in auto)
qed (use assms in auto)

lemma set_existing:
  assumes "keys_distinct item" "get_attribute_value item field = Some old"
  obtains path item' where "field_path field = Inr path" "keep_item (set_attribute_value item field v) = Inr item'"
    "get_attribute_value item' field = Some v"
    "\<And>q. apart path q \<Longrightarrow> update_get_path_value item' q = update_get_path_value item q"
proof -
  obtain path where p: "field_path field = Inr path" "update_get_path_value item path = Some old"
    using assms(2) by (auto simp: get_attribute_value_path split: sum.splits)
  obtain item' where s: "set_path_value item path v = (Inr (), item')"
    using set_path_existing [OF assms(1) p(2)] by blast
  from set_path_lookup [OF assms(1) s, unfolded item_landing_existing [OF p(2)]]
  have l: "update_get_path_value item' (path @ r) = update_walk r v"
    "apart path q \<Longrightarrow> update_get_path_value item' q = update_get_path_value item q" for r q by blast+
  show thesis
  proof (rule that [OF p(1), of item'])
    show "keep_item (set_attribute_value item field v) = Inr item'"
      by (simp add: set_attribute_value_path p(1) s keep_item_def)
    show "get_attribute_value item' field = Some v"
      using l(1) [of "[]"] by (simp add: get_attribute_value_path p(1))
  qed (rule l(2))
qed

section \<open>Members of sets\<close>

text \<open>The members of a set value; members of number sets are the numbers.\<close>

datatype members = Texts "string set" | Numbers "rat set" | Binaries "string set"

fun set_members :: "attribute_value \<Rightarrow> members option" where
  "set_members (SS xs) = Some (Texts (set xs))"
| "set_members (NS xs) = Some (Numbers (text_value ` set xs))"
| "set_members (BS xs) = Some (Binaries (set xs))"
| "set_members _ = None"

fun members_union :: "members \<Rightarrow> members \<Rightarrow> members option" where
  "members_union (Texts a) (Texts b) = Some (Texts (a \<union> b))"
| "members_union (Numbers a) (Numbers b) = Some (Numbers (a \<union> b))"
| "members_union (Binaries a) (Binaries b) = Some (Binaries (a \<union> b))"
| "members_union _ _ = None"

fun members_minus :: "members \<Rightarrow> members \<Rightarrow> members option" where
  "members_minus (Texts a) (Texts b) = Some (Texts (a - b))"
| "members_minus (Numbers a) (Numbers b) = Some (Numbers (a - b))"
| "members_minus (Binaries a) (Binaries b) = Some (Binaries (a - b))"
| "members_minus _ _ = None"

fun no_members :: "members \<Rightarrow> bool" where
  "no_members (Texts a) \<longleftrightarrow> a = {}"
| "no_members (Numbers a) \<longleftrightarrow> a = {}"
| "no_members (Binaries a) \<longleftrightarrow> a = {}"

text \<open>The texts of the members in their stored order, and that no member is stored twice.\<close>

fun set_texts :: "attribute_value \<Rightarrow> string list" where
  "set_texts (SS xs) = xs"
| "set_texts (NS xs) = xs"
| "set_texts (BS xs) = xs"
| "set_texts _ = []"

fun no_repeats :: "attribute_value \<Rightarrow> bool" where
  "no_repeats (SS xs) \<longleftrightarrow> distinct xs"
| "no_repeats (NS xs) \<longleftrightarrow> distinct (map text_value xs)"
| "no_repeats (BS xs) \<longleftrightarrow> distinct xs"
| "no_repeats _ \<longleftrightarrow> True"

text \<open>The members of the operand that are not stored yet, in their order.\<close>

fun fresh_texts :: "attribute_value \<Rightarrow> attribute_value \<Rightarrow> string list" where
  "fresh_texts old (NS xs) = filter (\<lambda>x. text_value x \<notin> text_value ` set (set_texts old)) xs"
| "fresh_texts old v = filter (\<lambda>x. x \<notin> set (set_texts old)) (set_texts v)"

lemma append_unique_values_texts:
  "distinct b \<Longrightarrow> append_unique_values a b = a @ filter (\<lambda>x. x \<notin> set a) b"
proof (induction b arbitrary: a)
  case (Cons x b)
  have "filter (\<lambda>y. y \<noteq> x \<and> y \<notin> set a) b = filter (\<lambda>y. y \<notin> set a) b"
    using Cons.prems by (intro filter_cong) auto
  then show ?case using Cons.IH [of a] Cons.IH [of "a @ [x]"] Cons.prems
    by (auto simp: append_unique_values_def)
qed (simp add: append_unique_values_def)

lemma append_unique_numbers_texts:
  assumes "list_all number_text a" "list_all number_text b" "distinct (map text_value b)"
  shows "append_unique_numbers a b = a @ filter (\<lambda>x. text_value x \<notin> text_value ` set a) b"
  using assms
proof (induction b arbitrary: a)
  case (Cons x b)
  have m: "list_ex (\<lambda>e. numeric_set_members_equal e x) a \<longleftrightarrow> text_value x \<in> text_value ` set a"
    using Cons.prems by (intro numeric_member_iff) auto
  have f: "filter (\<lambda>y. text_value y \<noteq> text_value x \<and> text_value y \<notin> text_value ` set a) b
      = filter (\<lambda>y. text_value y \<notin> text_value ` set a) b"
    using Cons.prems by (intro filter_cong refl) (auto simp: image_iff)
  show ?case
  proof (cases "text_value x \<in> text_value ` set a")
    case True
    then have "append_unique_numbers a (x # b) = append_unique_numbers a b"
      using m by (simp add: append_unique_numbers_def)
    then show ?thesis using Cons True by simp
  next
    case False
    then have "append_unique_numbers a (x # b) = append_unique_numbers (a @ [x]) b"
      using m by (simp add: append_unique_numbers_def)
    moreover have "append_unique_numbers (a @ [x]) b = (a @ [x]) @ filter (\<lambda>y. text_value y \<notin> text_value ` set (a @ [x])) b"
      using Cons.prems by (intro Cons.IH) auto
    ultimately show ?thesis using False f by simp
  qed
qed (simp add: append_unique_numbers_def)

lemma added_value_texts:
  assumes "stored_ok old" "stored_ok v" "added_value field old v = Inr new" "set_members v = Some added"
  shows "set_texts new = set_texts old @ fresh_texts old v"
  using assms by (cases old; cases v) (auto simp: added_value_def append_unique_numbers_texts append_unique_values_texts)

lemma added_value_no_repeats:
  assumes "stored_ok old" "stored_ok v" "added_value field old v = Inr new" "set_members v = Some added"
  shows "no_repeats new"
  using assms append_unique_numbers_members by (cases old; cases v) (auto simp: added_value_def append_unique_values_members)

lemma added_value_members:
  assumes "stored_ok old" "stored_ok v" "set_members v = Some added"
  shows "case Option.bind (set_members old) (\<lambda>m. members_union m added) of
      None \<Rightarrow> added_value field old v = Inl OperandType
    | Some u \<Rightarrow> \<exists>new. added_value field old v = Inr new \<and> set_members new = Some u"
  using assms append_unique_numbers_members
  by (cases old; cases v) (auto simp: added_value_def append_unique_values_members)

lemma number_members_minus:
  assumes "list_all number_text a" "list_all number_text b"
  shows "text_value ` set (filter (\<lambda>e. \<not> list_ex (\<lambda>value. numeric_set_members_equal e value) b) a)
    = text_value ` set a - text_value ` set b"
proof -
  have "list_ex (\<lambda>value. numeric_set_members_equal e value) b \<longleftrightarrow> text_value e \<in> text_value ` set b" if "e \<in> set a" for e
    using assms that by (auto simp: list_ex_iff list_all_iff numeric_equal_iff image_iff)
  then show ?thesis by auto
qed

lemma delete_set_members:
  assumes "stored_ok old" "stored_ok v"
  shows "case Option.bind (set_members old) (\<lambda>m. Option.bind (set_members v) (members_minus m)) of
      None \<Rightarrow> apply_delete_set_operation old v = Inl OperandType
    | Some rest \<Rightarrow> \<exists>kept. apply_delete_set_operation old v = Inr (kept, no_members rest) \<and> set_members kept = Some rest"
proof -
  have "set (remove_set_members a b) = set a - set b" for a b
    by (auto simp: remove_set_members_def list_ex_iff)
  moreover have "remove_set_members a b = [] \<longleftrightarrow> set a - set b = {}" for a b
    by (auto simp: remove_set_members_def list_ex_iff filter_empty_conv)
  moreover have "filter (\<lambda>e. \<not> list_ex (\<lambda>value. numeric_set_members_equal e value) b) a = [] \<longleftrightarrow>
      text_value ` set a - text_value ` set b = {}" if "list_all number_text a" "list_all number_text b" for a b
    unfolding number_members_minus [OF that, symmetric] by (simp only: image_is_empty set_empty)
  ultimately show ?thesis using assms number_members_minus
    by (cases old; cases v) (simp_all add: apply_delete_set_operation_def Let_def del: set_filter Diff_eq_empty_iff)
qed

text \<open>
  C13: \<open>ADD\<close> of a set to a path that holds a value: it fails exactly when the operand has no member or the
  value is not a set of the same kind, and otherwise the path then holds the union of the two sets, where
  members of number sets are compared as numbers. The new set stores no member twice: it is the stored
  texts, in their order, followed by the operand's texts whose member was not stored. Paths that are
  neither on the way nor beyond read what they read before.
\<close>

theorem add_is_union:
  assumes "stored_ok (M item)" "stored_ok v" "get_attribute_value item field = Some old" "set_members v = Some added"
  shows "case Option.bind (set_members old) (\<lambda>m. members_union m added) of
      None \<Rightarrow> apply_add_operation field v item \<in> {Inl (EmptyAddOperand field), Inl OperandType}
    | Some both \<Rightarrow>
        if no_members added then apply_add_operation field v item = Inl (EmptyAddOperand field)
        else \<exists>item' path new. apply_add_operation field v item = Inr item' \<and> field_path field = Inr path
          \<and> get_attribute_value item' field = Some new \<and> set_members new = Some both
          \<and> set_texts new = set_texts old @ fresh_texts old v \<and> no_repeats new
          \<and> (\<forall>q. apart path q \<longrightarrow> update_get_path_value item' q = update_get_path_value item q)"
proof -
  have kd: "keys_distinct item" using assms(1) by (simp add: stored_ok.simps)
  have old: "stored_ok old" by (rule stored.get_attribute_value_ok [OF assms(1,3)])
  have valid: "(case v of N number \<Rightarrow> ebind (parse_add_number field number) (\<lambda>_. Inr ()) | _ \<Rightarrow> validate_add_operand field v)
      = (if no_members added then Inl (EmptyAddOperand field) else Inr ())"
    using assms(4) by (cases v) auto
  have add: "apply_add_operation field v item = (if no_members added then Inl (EmptyAddOperand field)
      else ebind (added_value field old v) (\<lambda>new. keep_item (set_attribute_value item field new)))"
    unfolding apply_add_operation_def valid by (simp add: assms(3))
  show ?thesis
  proof (cases "Option.bind (set_members old) (\<lambda>m. members_union m added)")
    case None
    then show ?thesis using add added_value_members [OF old assms(2,4), of field] by simp
  next
    case (Some u)
    with added_value_members [OF old assms(2,4), of field] obtain new
      where n: "added_value field old v = Inr new" "set_members new = Some u" by auto
    note t = added_value_texts [OF old assms(2) n(1) assms(4)] added_value_no_repeats [OF old assms(2) n(1) assms(4)]
    obtain path item' where "field_path field = Inr path" "keep_item (set_attribute_value item field new) = Inr item'"
      "get_attribute_value item' field = Some new"
      "\<And>q. apart path q \<Longrightarrow> update_get_path_value item' q = update_get_path_value item q"
      using set_existing [OF kd assms(3)] by metis
    then show ?thesis using Some add n t by auto
  qed
qed

text \<open>
  C14: \<open>DELETE\<close> of a set from a top-level attribute: without the attribute nothing changes; it fails exactly
  when the attribute does not hold a set of the same kind; otherwise the attribute holds the difference,
  and it is removed when no member is left. All other attributes stay.
\<close>

theorem delete_is_difference:
  assumes "stored_ok (M item)" "stored_ok v"
  shows "case attribute_map_get item field of
      None \<Rightarrow> \<exists>item'. apply_delete_operation field v item = Inr item' \<and> attribute_map_get item' = attribute_map_get item
    | Some old \<Rightarrow>
        (case Option.bind (set_members old) (\<lambda>m. Option.bind (set_members v) (members_minus m)) of
           None \<Rightarrow> apply_delete_operation field v item = Inl OperandType
         | Some rest \<Rightarrow> \<exists>item'. apply_delete_operation field v item = Inr item'
             \<and> (if no_members rest then attribute_map_get item' field = None
                else Option.bind (attribute_map_get item' field) set_members = Some rest)
             \<and> (\<forall>name. name \<noteq> field \<longrightarrow> attribute_map_get item' name = attribute_map_get item name))"
proof -
  have kd: "keys_distinct item" using assms(1) by (simp add: stored_ok.simps)
  obtain removed found where r: "attribute_map_remove item field = (removed, found)" by fastforce
  note t = attribute_map_take [OF kd r]
  show ?thesis
  proof (cases found)
    case None
    then show ?thesis using r t by (auto simp: apply_delete_operation_def fun_eq_iff)
  next
    case (Some old)
    have "stored_ok old" using stored.ok_take(2) [OF assms(1) r Some] .
    note d = delete_set_members [OF this assms(2)]
    show ?thesis
    proof (cases "Option.bind (set_members old) (\<lambda>m. Option.bind (set_members v) (members_minus m))")
      case None
      then show ?thesis using d r t \<open>found = Some old\<close> by (simp add: apply_delete_operation_def)
    next
      case (Some rest)
      with d obtain kept where "apply_delete_set_operation old v = Inr (kept, no_members rest)" "set_members kept = Some rest"
        by auto
      then show ?thesis using r t \<open>found = Some old\<close> Some
        by (cases "no_members rest") (simp_all add: apply_delete_operation_def attr_map.get_insert)
    qed
  qed
qed

definition tagged_item :: attribute_map where
  "tagged_item = [(''id'', S ''x''), (''m'', M [(''t'', NS [''1'', ''2''])]), (''u'', SS [''a''])]"

lemma sample_numbers:
  "number_text ''1''" "number_text ''2''" "number_text ''1.0''" "number_text ''3''"
proof -
  have "validate_dynamodb_number ''1'' = Inr ()" "validate_dynamodb_number ''2'' = Inr ()"
    "validate_dynamodb_number ''1.0'' = Inr ()" "validate_dynamodb_number ''3'' = Inr ()" by code_simp+
  then show "number_text ''1''" "number_text ''2''" "number_text ''1.0''" "number_text ''3''"
    by (simp_all add: number_text_def addressable_def)
qed

lemma sample_values:
  "text_value ''1'' \<noteq> text_value ''2''" "text_value ''1.0'' \<noteq> text_value ''3''" "text_value ''1'' = text_value ''1.0''"
  "text_value ''1'' \<noteq> text_value ''3''" "text_value ''2'' \<noteq> text_value ''3''"
proof -
  have "\<not> numeric_set_members_equal ''1'' ''2''" "\<not> numeric_set_members_equal ''1.0'' ''3''"
    "numeric_set_members_equal ''1'' ''1.0''" "\<not> numeric_set_members_equal ''1'' ''3''"
    "\<not> numeric_set_members_equal ''2'' ''3''" by code_simp+
  then show "text_value ''1'' \<noteq> text_value ''2''" "text_value ''1.0'' \<noteq> text_value ''3''" "text_value ''1'' = text_value ''1.0''"
    "text_value ''1'' \<noteq> text_value ''3''" "text_value ''2'' \<noteq> text_value ''3''"
    by (simp_all add: numeric_equal_iff sample_numbers)
qed

lemma tagged_item_ok: "stored_ok (M tagged_item)"
  by (simp add: tagged_item_def stored_ok.simps sample_numbers sample_values(1))

lemma number_set_texts: "set_members new = Some (Numbers u) \<Longrightarrow> new = NS (set_texts new)"
  by (cases new) auto

theorem add_is_union_witness:
  "\<exists>item'. apply_add_operation ''m.t'' (NS [''1.0'', ''3'']) tagged_item = Inr item'
    \<and> get_attribute_value item' ''m.t'' = Some (NS [''1'', ''2'', ''3''])"
proof -
  have "field_path ''m.t'' = Inr [Name ''m'', Name ''t'']"
    by (simp add: field_path_def is_top_level_path_def path_stop_def parse_update_path_def push_name_def)
  then have g: "get_attribute_value tagged_item ''m.t'' = Some (NS [''1'', ''2''])"
    by (simp add: get_attribute_value_path tagged_item_def attribute_map_get_def)
  have "stored_ok (NS [''1.0'', ''3''])" by (simp add: sample_numbers sample_values(2))
  from add_is_union [OF tagged_item_ok this g, of "Numbers (text_value ` {''1.0'', ''3''})"]
  obtain item' new where "apply_add_operation ''m.t'' (NS [''1.0'', ''3'']) tagged_item = Inr item'"
    "get_attribute_value item' ''m.t'' = Some new" "set_texts new = [''1'', ''2'', ''3'']" "new = NS (set_texts new)"
    using sample_values by (auto dest: number_set_texts)
  then show ?thesis by auto
qed

theorem delete_is_difference_witness:
  "\<exists>item'. apply_delete_operation ''u'' (SS [''a'', ''c'']) tagged_item = Inr item' \<and> attribute_map_get item' ''u'' = None"
  using delete_is_difference [OF tagged_item_ok, of "SS [''a'', ''c'']" "''u''"]
  by (auto simp: tagged_item_def attribute_map_get_def)

end
