(* ===== verification/Update_Expression.thy ===== *)
theory Update_Expression
  imports Update_Apply
begin

text \<open>
  The parser of update expressions (\<open>update_logic/logic.rs\<close>): the section keywords are normalised, the
  expression is split into operations, and every operation is planned.

  Errors name the kind of the rejected operation instead of carrying the message text.
\<close>

section \<open>Section keywords\<close>

text \<open>\<open>str::get(..n)\<close>: no prefix of \<open>n\<close> bytes when the string is shorter or byte \<open>n\<close> continues a character.\<close>

definition char_boundary :: "string \<Rightarrow> nat \<Rightarrow> bool" where
  "char_boundary s n \<longleftrightarrow>
     n \<le> length s \<and> (n = length s \<or> \<not> (128 \<le> (of_char (s ! n) :: nat) \<and> (of_char (s ! n) :: nat) < 192))"

definition get_prefix :: "nat \<Rightarrow> string \<Rightarrow> string option" where
  "get_prefix n s = (if char_boundary s n then Some (take n s) else None)"

definition trim_end :: "unicode \<Rightarrow> string \<Rightarrow> string" where
  "trim_end uc s = concat (rev (dropWhile (char_is_whitespace uc) (rev (chars_of s))))"

fun keyword_search :: "unicode \<Rightarrow> string list \<Rightarrow> string \<Rightarrow> string option" where
  "keyword_search uc [] remaining = None"
| "keyword_search uc (keyword # kws) remaining =
     (case get_prefix (length keyword) remaining of
        None \<Rightarrow> None
      | Some candidate \<Rightarrow>
          if \<not> eq_ignore_ascii_case candidate keyword then keyword_search uc kws remaining
          else (case current_char (drop (length keyword) remaining) of
             None \<Rightarrow> keyword_search uc kws remaining
           | Some next_char \<Rightarrow>
               if char_is_whitespace uc next_char then Some keyword else keyword_search uc kws remaining))"

definition update_section_keyword_at :: "unicode \<Rightarrow> string \<Rightarrow> string \<Rightarrow> string option" where
  "update_section_keyword_at uc before remaining =
     (if before \<noteq> [] \<and> (let previous = last (chars_of before) in \<not> char_is_whitespace uc previous \<and> previous \<noteq> '','')
      then None
      else keyword_search uc [''SET'', ''REMOVE'', ''ADD'', ''DELETE''] remaining)"

lemma keyword_search_length: "keyword_search uc kws remaining = Some keyword \<Longrightarrow> keyword \<in> set kws"
  by (induction kws) (auto split: option.splits if_splits)

lemma section_keyword_ne: "update_section_keyword_at uc before remaining = Some keyword \<Longrightarrow> keyword \<noteq> []"
  by (auto simp: update_section_keyword_at_def simp del: keyword_search.simps dest!: keyword_search_length split: if_splits)

text \<open>\<open>before\<close> is what was read of the expression, \<open>remaining\<close> what is left.\<close>

function normalize_loop :: "unicode \<Rightarrow> string \<Rightarrow> string \<Rightarrow> nat \<Rightarrow> string \<Rightarrow> string" where
  "normalize_loop uc before remaining paren_depth normalized =
     (case current_char remaining of
        None \<Rightarrow> normalized
      | Some ch \<Rightarrow>
          if ch = ''('' then normalize_loop uc (before @ ch) (advance_char remaining) (paren_depth + 1) (normalized @ ch)
          else if ch = '')'' then normalize_loop uc (before @ ch) (advance_char remaining) (paren_depth - 1) (normalized @ ch)
          else if paren_depth = 0 then
            (case update_section_keyword_at uc before remaining of
               Some keyword \<Rightarrow>
                 let normalized = trim_end uc normalized;
                     normalized = (if normalized \<noteq> [] \<and> last normalized \<noteq> CHR '','' then normalized @ '' '' else normalized);
                     normalized = normalized @ keyword @ '' '';
                     rest = skip_whitespace uc (drop (length keyword) remaining);
                     consumed = take (length remaining - length rest) remaining in
                 normalize_loop uc (before @ consumed) rest paren_depth normalized
             | None \<Rightarrow> normalize_loop uc (before @ ch) (advance_char remaining) paren_depth (normalized @ ch))
          else normalize_loop uc (before @ ch) (advance_char remaining) paren_depth (normalized @ ch))"
  by pat_completeness auto
termination
proof (relation "measure (\<lambda>(uc, before, remaining, depth, normalized). length remaining)", goal_cases)
  case 1 then show ?case by simp
next
  case (5 uc before remaining depth normalized ch keyword n1 n2 n3 rest consumed)
  have "length (skip_whitespace uc s) \<le> length s" for s
    using skip_whitespace_le by blast
  then have "length rest \<le> length remaining - length keyword" using 5 by (metis length_drop)
  moreover have "keyword \<noteq> []" "remaining \<noteq> []" using 5 section_keyword_ne current_char_Some by blast+
  ultimately show ?case by (cases keyword; cases remaining) auto
qed (auto dest: current_char_Some simp: advance_char_shorter)

declare normalize_loop.simps [simp del]

definition normalize_update_section_keywords :: "unicode \<Rightarrow> string \<Rightarrow> string" where
  "normalize_update_section_keywords uc expression = normalize_loop uc [] expression 0 []"

section \<open>Splitting into operations\<close>

definition update_section_keywords :: "(string \<times> string) list" where
  "update_section_keywords =
     [('' SET '', ''SET ''), ('' REMOVE '', ''REMOVE ''), ('' ADD '', ''ADD ''), ('' DELETE '', ''DELETE '')]"

definition split_keyword :: "string \<Rightarrow> (string \<times> nat) option" where
  "split_keyword bytes =
     map_option (\<lambda>(pattern, keyword). (keyword, length pattern))
       (find (\<lambda>(pattern, _). starts_with bytes pattern) update_section_keywords)"

definition push_part :: "unicode \<Rightarrow> string \<Rightarrow> string list \<Rightarrow> string list" where
  "push_part uc current parts = (let part = trim uc current in if part \<noteq> [] then parts @ [part] else parts)"

lemma split_keyword_advance: "split_keyword bytes = Some (keyword, advance) \<Longrightarrow> 0 < advance"
  by (auto simp: split_keyword_def update_section_keywords_def split: if_splits)

text \<open>\<open>current\<close> holds the bytes since the start of the current part.\<close>

function split_parts_loop :: "unicode \<Rightarrow> string \<Rightarrow> string \<Rightarrow> int \<Rightarrow> string list \<Rightarrow> string list" where
  "split_parts_loop uc current [] paren_depth parts = push_part uc current parts"
| "split_parts_loop uc current (ch # rest) paren_depth parts =
     (if ch = CHR ''('' then split_parts_loop uc (current @ [ch]) rest (paren_depth + 1) parts
      else if ch = CHR '')'' then split_parts_loop uc (current @ [ch]) rest (paren_depth - 1) parts
      else if ch = CHR '','' then
        if paren_depth = 0 then split_parts_loop uc [] rest paren_depth (push_part uc current parts)
        else split_parts_loop uc (current @ [ch]) rest paren_depth parts
      else if paren_depth = 0 \<and> ch = CHR '' '' then
        (case split_keyword (ch # rest) of
           Some (keyword, advance) \<Rightarrow>
             split_parts_loop uc keyword (drop advance (ch # rest)) paren_depth (push_part uc current parts)
         | None \<Rightarrow> split_parts_loop uc (current @ [ch]) rest paren_depth parts)
      else split_parts_loop uc (current @ [ch]) rest paren_depth parts)"
  by pat_completeness auto
termination
  by (relation "measure (\<lambda>(uc, current, remaining, depth, parts). length remaining)") (auto dest!: split_keyword_advance)

definition split_operation_parts_preserving_functions :: "unicode \<Rightarrow> string \<Rightarrow> string list" where
  "split_operation_parts_preserving_functions uc expression = split_parts_loop uc [] expression 0 []"

section \<open>Planning\<close>

definition resolve_attribute_name :: "string \<Rightarrow> names option \<Rightarrow> update_error + string" where
  "resolve_attribute_name name names = resolve_document_path name names"

definition split_assignment :: "unicode \<Rightarrow> string \<Rightarrow> (string \<times> string) option" where
  "split_assignment uc assignment = map_option (\<lambda>(field, value_expr). (trim uc field, trim uc value_expr)) (split_once (CHR ''='') assignment)"

definition set_operation_plan :: "update_env \<Rightarrow> names option \<Rightarrow> string \<Rightarrow> string \<Rightarrow> update_error + update_operation_plan" where
  "set_operation_plan env names field value_expr =
     ebind (resolve_attribute_name field names) (\<lambda>field.
     ebind (resolve_attribute_value_plan env names value_expr) (\<lambda>r.
       case r of
         Inr value \<Rightarrow> Inr (PlanSet field value)
       | Inl (FIfNotExists path operand) \<Rightarrow> Inr (PlanSet field (PIfNotExists path operand))
       | Inl (FListAppend operand1 operand2) \<Rightarrow> Inr (PlanSet field (PListAppend operand1 operand2))))"

text \<open>\<open>ADD\<close> and \<open>DELETE\<close> parts: a name, a space and a value that is not a function call.\<close>

definition pair_operation_plan :: "update_env \<Rightarrow> names option \<Rightarrow> string \<Rightarrow> (string \<Rightarrow> update_value_plan \<Rightarrow> update_operation_plan)
    \<Rightarrow> string \<Rightarrow> update_error + update_operation_plan" where
  "pair_operation_plan env names kind constructor assignment =
     (case split_once (CHR '' '') assignment of
        None \<Rightarrow> Inl (InvalidOperation kind)
      | Some (field, value_expr) \<Rightarrow>
          ebind (resolve_attribute_name (trim (ue_uc env) field) names) (\<lambda>field.
          ebind (resolve_attribute_value_plan env names (trim (ue_uc env) value_expr)) (\<lambda>r.
          case r of Inr value \<Rightarrow> Inr (constructor field value) | Inl _ \<Rightarrow> Inl (FunctionNotSupported kind))))"

definition remove_operation_plan :: "update_env \<Rightarrow> names option \<Rightarrow> string \<Rightarrow> update_error + update_operation_plan" where
  "remove_operation_plan env names part =
     ebind (resolve_attribute_name (trim (ue_uc env) part) names) (\<lambda>field. Inr (PlanRemove field))"

definition continuation_plan :: "update_env \<Rightarrow> names option \<Rightarrow> string \<Rightarrow> update_error + update_operation_plan" where
  "continuation_plan env names part =
     (if CHR ''='' \<in> set part then
        (case split_assignment (ue_uc env) part of
           Some (field, value_expr) \<Rightarrow> set_operation_plan env names field value_expr
         | None \<Rightarrow> Inl (InvalidOperation ''SET''))
      else if CHR '' '' \<in> set part \<and> CHR ''='' \<notin> set part then pair_operation_plan env names ''ADD'' PlanAdd part
      else remove_operation_plan env names part)"

definition could_be_continuation :: "unicode \<Rightarrow> string \<Rightarrow> bool" where
  "could_be_continuation uc part \<longleftrightarrow>
     CHR ''='' \<in> set part \<and> split_assignment uc part \<noteq> None
     \<or> CHR '' '' \<in> set part \<and> CHR ''='' \<notin> set part \<and> split_once (CHR '' '') part \<noteq> None
     \<or> CHR '' '' \<notin> set part \<and> CHR ''='' \<notin> set part"

definition plan_part :: "update_env \<Rightarrow> names option \<Rightarrow> bool \<Rightarrow> string \<Rightarrow> update_error + update_operation_plan" where
  "plan_part env names first part =
     (if part = ''SET'' then Inl SetAtEnd
      else (case strip_prefix ''SET '' part of
        Some set_part \<Rightarrow>
          let assignment = trim (ue_uc env) set_part in
          (case split_assignment (ue_uc env) assignment of
             Some (field, value_expr) \<Rightarrow> set_operation_plan env names field value_expr
           | None \<Rightarrow> Inl (InvalidOperation ''SET''))
      | None \<Rightarrow>
     (case strip_prefix ''ADD '' part of
        Some add_part \<Rightarrow> pair_operation_plan env names ''ADD'' PlanAdd (trim (ue_uc env) add_part)
      | None \<Rightarrow>
     (case strip_prefix ''REMOVE '' part of
        Some remove_part \<Rightarrow> remove_operation_plan env names remove_part
      | None \<Rightarrow>
     (case strip_prefix ''DELETE '' part of
        Some delete_part \<Rightarrow> pair_operation_plan env names ''DELETE'' PlanDelete (trim (ue_uc env) delete_part)
      | None \<Rightarrow>
          if could_be_continuation (ue_uc env) part \<and> first then Inl (UnknownOperation part)
          else if could_be_continuation (ue_uc env) part then continuation_plan env names part
          else Inl (UnknownOperation part))))))"

fun plan_parts :: "update_env \<Rightarrow> names option \<Rightarrow> string list \<Rightarrow> update_operation_plan list \<Rightarrow> update_error + update_operation_plan list" where
  "plan_parts env names [] operations = Inr operations"
| "plan_parts env names (part # parts) operations =
     ebind (plan_part env names (operations = []) part) (\<lambda>operation. plan_parts env names parts (operations @ [operation]))"

definition parse_update_expression_plan :: "update_env \<Rightarrow> names option \<Rightarrow> string \<Rightarrow> update_error + update_operation_plan list" where
  "parse_update_expression_plan env names update_expression =
     (let normalized_expression = normalize_update_section_keywords (ue_uc env) update_expression;
          parts = split_operation_parts_preserving_functions (ue_uc env) normalized_expression in
      plan_parts env names parts [])"

end
