(* ===== verification/Update_Printing.thy ===== *)
theory Update_Printing
  imports Update_Expression
begin

text \<open>
  Printed update expressions and the theorem on how the parser plans them.
\<close>

section \<open>Plain texts\<close>

definition graphic :: "char \<Rightarrow> bool" where
  "graphic c \<longleftrightarrow> 33 \<le> (of_char c :: nat) \<and> (of_char c :: nat) \<le> 126"

abbreviation ascii_text :: "string \<Rightarrow> bool" where
  "ascii_text s \<equiv> list_all (\<lambda>c. (of_char c :: nat) < 128) s"

lemma graphic_ascii: "graphic c \<Longrightarrow> (of_char c :: nat) < 128"
  by (simp add: graphic_def)

lemma ascii_current [simp]:
  "(of_char c :: nat) < 128 \<Longrightarrow> current_char (c # s) = Some [c]"
  "(of_char c :: nat) < 128 \<Longrightarrow> advance_char (c # s) = s"
  by (simp_all add: current_char_def advance_char_def utf8_len_def)

lemma chars_of_Nil [simp]: "chars_of [] = []"
  by (subst chars_of.simps) (simp add: current_char_def)

lemma chars_of_ascii: "ascii_text s \<Longrightarrow> chars_of s = map (\<lambda>c. [c]) s"
proof (induction s)
  case (Cons c s)
  then show ?case by (subst chars_of.simps) simp
qed simp

lemma whitespace_space [simp]: "char_is_whitespace uc '' ''"
  by (simp add: char_is_whitespace_def)

lemma whitespace_graphic: "graphic c \<Longrightarrow> \<not> char_is_whitespace uc [c]"
  by (simp add: char_is_whitespace_def graphic_def)

lemma graphic_simps [simp]: "\<not> graphic (CHR '' '')"
  by (simp add: graphic_def)

lemma concat_singletons [simp]: "concat (map (\<lambda>c. [c]) s) = s"
  by (induction s) simp_all

lemma dropWhile_map_singletons: "dropWhile P (map (\<lambda>c. [c]) s) = map (\<lambda>c. [c]) (dropWhile (\<lambda>c. P [c]) s)"
  by (induction s) simp_all

lemma trim_end_ascii: "ascii_text s \<Longrightarrow> trim_end uc s = rev (dropWhile (\<lambda>c. char_is_whitespace uc [c]) (rev s))"
  by (simp add: trim_end_def chars_of_ascii dropWhile_map_singletons rev_map)

lemma trim_ascii:
  "ascii_text s \<Longrightarrow>
    trim uc s = rev (dropWhile (\<lambda>c. char_is_whitespace uc [c]) (rev (dropWhile (\<lambda>c. char_is_whitespace uc [c]) s)))"
  by (simp add: trim_def chars_of_ascii dropWhile_map_singletons rev_map)

lemma dropWhile_graphic: "s \<noteq> [] \<Longrightarrow> graphic (hd s) \<Longrightarrow> dropWhile (\<lambda>c. char_is_whitespace uc [c]) s = s"
  by (cases s) (simp_all add: whitespace_graphic)

text \<open>A text that starts and ends with a graphic character.\<close>

definition tight :: "string \<Rightarrow> bool" where
  "tight s \<longleftrightarrow> s \<noteq> [] \<and> ascii_text s \<and> graphic (hd s) \<and> graphic (last s)"

lemma trim_tight [simp]:
  assumes "tight s"
  shows "trim uc s = s" "trim uc (CHR '' '' # s) = s" "trim uc (s @ '' '') = s" "trim uc (CHR '' '' # s @ '' '') = s"
    "trim_end uc s = s" "trim_end uc (s @ '' '') = s"
  using assms by (simp_all add: tight_def trim_ascii trim_end_ascii dropWhile_graphic hd_rev)

lemma skip_space_tight: "tight s \<Longrightarrow> skip_whitespace uc (CHR '' '' # s @ t) = s @ t"
  by (cases s) (simp_all add: tight_def skip_whitespace.simps [of uc "CHR '' '' # _"] skip_whitespace.simps [of uc "_ # _"]
    whitespace_graphic)

section \<open>Keywords and words\<close>

definition section_words :: "string list" where
  "section_words = [''SET'', ''REMOVE'', ''ADD'', ''DELETE'']"

definition keyword_word :: "string \<Rightarrow> bool" where
  "keyword_word w \<longleftrightarrow> list_ex (eq_ignore_ascii_case w) section_words"

lemma search_none:
  "(\<And>kw. kw \<in> set kws \<Longrightarrow> eq_ignore_ascii_case (take (length kw) remaining) kw \<Longrightarrow>
      \<exists>c r. drop (length kw) remaining = c # r \<and> (of_char c :: nat) < 128 \<and> \<not> char_is_whitespace uc [c]
        \<or> drop (length kw) remaining = []) \<Longrightarrow>
    keyword_search uc kws remaining = None"
proof (induction kws)
  case (Cons kw kws)
  have ih: "keyword_search uc kws remaining = None" using Cons by simp
  show ?case
  proof (cases "eq_ignore_ascii_case (take (length kw) remaining) kw")
    case True
    with Cons.prems [of kw] show ?thesis
      by (auto simp: ih get_prefix_def current_char_def [of "[]"] split: option.splits)
  qed (auto simp: ih get_prefix_def split: option.splits)
qed simp

lemma lower_letter: "to_ascii_lower c = to_ascii_lower d \<Longrightarrow> is_ascii_letter d \<Longrightarrow> is_ascii_letter c"
  by (auto simp: to_ascii_lower_def is_ascii_letter_def split: if_splits dest!: arg_cong [where f = "of_char :: char \<Rightarrow> nat"])

lemma section_words_letters: "kw \<in> set section_words \<Longrightarrow> list_all is_ascii_letter kw \<and> kw \<noteq> []"
  by (auto simp: section_words_def is_ascii_letter_def)

lemma eq_ignore_letters: "eq_ignore_ascii_case w kw \<Longrightarrow> list_all is_ascii_letter kw \<Longrightarrow> list_all is_ascii_letter w \<and> length w = length kw"
  unfolding eq_ignore_ascii_case_def by (induction w arbitrary: kw) (auto dest: lower_letter)

text \<open>What may follow a word.\<close>

definition word_end :: "string \<Rightarrow> bool" where
  "word_end rest \<longleftrightarrow> rest = [] \<or> hd rest = CHR '' '' \<or> hd rest = CHR '',''"

lemma search_word:
  assumes "list_all graphic w" "\<not> keyword_word w" "word_end rest"
  shows "keyword_search uc section_words (w @ rest) = None"
proof (rule search_none)
  fix kw assume kw: "kw \<in> set section_words" and eq: "eq_ignore_ascii_case (take (length kw) (w @ rest)) kw"
  have l: "list_all is_ascii_letter (take (length kw) (w @ rest))" "length (take (length kw) (w @ rest)) = length kw"
    using eq_ignore_letters [OF eq] section_words_letters [OF kw] by simp_all
  have "length kw \<le> length w"
  proof (rule ccontr)
    assume n: "\<not> length kw \<le> length w"
    then have "rest \<noteq> []" "hd rest \<in> set (take (length kw) (w @ rest))" using l(2) by (cases rest; auto simp: take_Cons' )+
    then have "is_ascii_letter (hd rest)" using l(1) unfolding list_all_iff by blast
    with \<open>rest \<noteq> []\<close> show False using assms(3) by (auto simp: word_end_def is_ascii_letter_def)
  qed
  moreover have "length kw \<noteq> length w" using eq kw assms(2) by (auto simp: keyword_word_def list_ex_iff)
  ultimately have "length kw < length w" by simp
  then have "drop (length kw) (w @ rest) = w ! length kw # drop (Suc (length kw)) w @ rest" "graphic (w ! length kw)"
    using assms(1) by (simp_all add: Cons_nth_drop_Suc [symmetric] list_all_length)
  then show "\<exists>c r. drop (length kw) (w @ rest) = c # r \<and> (of_char c :: nat) < 128 \<and> \<not> char_is_whitespace uc [c]
      \<or> drop (length kw) (w @ rest) = []"
    using graphic_ascii whitespace_graphic by blast
qed

lemma search_not_letter:
  assumes "\<not> is_ascii_letter c"
  shows "keyword_search uc section_words (c # rest) = None"
proof (rule search_none)
  fix kw assume kw: "kw \<in> set section_words" and eq: "eq_ignore_ascii_case (take (length kw) (c # rest)) kw"
  have "list_all is_ascii_letter (take (length kw) (c # rest))" "kw \<noteq> []"
    using eq_ignore_letters [OF eq] section_words_letters [OF kw] by simp_all
  then show "\<exists>d r. drop (length kw) (c # rest) = d # r \<and> (of_char d :: nat) < 128 \<and> \<not> char_is_whitespace uc [d]
      \<or> drop (length kw) (c # rest) = []"
    using assms by (cases kw) simp_all
qed

lemma search_keyword:
  assumes "kw \<in> set section_words" "ascii_text t" "kw = ''ADD'' \<longrightarrow> 3 \<le> length t"
  shows "keyword_search uc section_words (kw @ '' '' @ t) = Some kw"
proof -
  have b: "get_prefix n s = Some (take n s)" if "ascii_text s" "n \<le> length s" for n s
  proof (cases "n = length s")
    case False
    then have "(of_char (s ! n) :: nat) < 128" using that by (auto simp: list_all_length)
    then show ?thesis using that(2) by (simp add: get_prefix_def char_boundary_def)
  qed (simp add: get_prefix_def char_boundary_def)
  show ?thesis using assms
    by (auto simp: section_words_def b eq_ignore_ascii_case_def to_ascii_lower_def)
qed

lemma keyword_at_inside:
  "before \<noteq> [] \<Longrightarrow> ascii_text before \<Longrightarrow> graphic (last before) \<Longrightarrow> last before \<noteq> CHR '','' \<Longrightarrow>
    update_section_keyword_at uc before remaining = None"
  by (simp add: update_section_keyword_at_def chars_of_ascii last_map whitespace_graphic)

lemma keyword_at_search:
  "keyword_search uc section_words remaining = None \<Longrightarrow> update_section_keyword_at uc before remaining = None"
  unfolding update_section_keyword_at_def section_words_def [symmetric] by simp

lemma keyword_at_start:
  "before = [] \<or> ascii_text before \<and> last before = CHR '' '' \<Longrightarrow>
    update_section_keyword_at uc before remaining = keyword_search uc section_words remaining"
  unfolding update_section_keyword_at_def section_words_def [symmetric] by (auto simp: chars_of_ascii last_map)

section \<open>Printed expressions\<close>

datatype section_kind = KSet | KRemove | KAdd | KDelete

fun section_word :: "section_kind \<Rightarrow> string" where
  "section_word KSet = ''SET''"
| "section_word KRemove = ''REMOVE''"
| "section_word KAdd = ''ADD''"
| "section_word KDelete = ''DELETE''"

fun clause_text :: "section_kind \<Rightarrow> string \<times> string \<Rightarrow> string" where
  "clause_text KSet (f, v) = f @ '' = '' @ v"
| "clause_text KRemove (f, v) = f"
| "clause_text KAdd (f, v) = f @ '' '' @ v"
| "clause_text KDelete (f, v) = f @ '' '' @ v"

fun joined :: "string \<Rightarrow> string list \<Rightarrow> string" where
  "joined sep [] = []"
| "joined sep [t] = t"
| "joined sep (t # u # ts) = t @ sep @ joined sep (u # ts)"

definition section_text :: "section_kind \<times> (string \<times> string) list \<Rightarrow> string" where
  "section_text s = section_word (fst s) @ '' '' @ joined '', '' (map (clause_text (fst s)) (snd s))"

definition update_text :: "(section_kind \<times> (string \<times> string) list) list \<Rightarrow> string" where
  "update_text ss = joined '' '' (map section_text ss)"

text \<open>A run of graphic characters with balanced parentheses and commas only inside them.\<close>

fun run_ok :: "nat \<Rightarrow> string \<Rightarrow> bool" where
  "run_ok d [] \<longleftrightarrow> d = 0"
| "run_ok d (c # w) \<longleftrightarrow> graphic c \<and> c \<noteq> CHR ''='' \<and>
     (if c = CHR ''('' then run_ok (d + 1) w
      else if c = CHR '')'' then 0 < d \<and> run_ok (d - 1) w
      else if c = CHR '','' then 0 < d \<and> run_ok d w
      else run_ok d w)"

definition word_ok :: "string \<Rightarrow> bool" where
  "word_ok w \<longleftrightarrow> w \<noteq> [] \<and> run_ok 0 w \<and> \<not> keyword_word w"

definition clause_ok :: "section_kind \<Rightarrow> string \<times> string \<Rightarrow> bool" where
  "clause_ok k c \<longleftrightarrow> word_ok (fst c) \<and> (k = KRemove \<or> word_ok (snd c))"

definition section_ok :: "section_kind \<times> (string \<times> string) list \<Rightarrow> bool" where
  "section_ok s \<longleftrightarrow> snd s \<noteq> [] \<and> list_all (clause_ok (fst s)) (snd s)"

lemma run_graphic: "run_ok d w \<Longrightarrow> list_all graphic w"
  by (induction d w rule: run_ok.induct) (auto split: if_splits)

lemma run_no_equals: "run_ok d w \<Longrightarrow> CHR ''='' \<notin> set w"
  by (induction d w rule: run_ok.induct) (auto split: if_splits)

lemma run_last: "run_ok d w \<Longrightarrow> w \<noteq> [] \<Longrightarrow> last w \<noteq> CHR '',''"
  by (induction d w rule: run_ok.induct) (auto split: if_splits)

lemma word_tight: "word_ok w \<Longrightarrow> tight w"
  using run_graphic [of 0 w] by (auto simp: word_ok_def tight_def list_all_iff graphic_ascii)

lemma word_not_comma: "word_ok w \<Longrightarrow> last w \<noteq> CHR '','' \<and> CHR ''='' \<notin> set w \<and> CHR '' '' \<notin> set w"
  using run_last [of 0 w] run_no_equals [of 0 w] run_graphic [of 0 w] by (auto simp: word_ok_def list_all_iff)

lemma section_word_words: "section_word k \<in> set section_words"
  by (cases k) (simp_all add: section_words_def)

lemma tight_append: "tight a \<Longrightarrow> tight b \<Longrightarrow> ascii_text s \<Longrightarrow> tight (a @ s @ b)"
  by (auto simp: tight_def)

lemma section_word_tight: "tight (section_word k)"
  by (cases k) (simp_all add: tight_def graphic_def)

lemma clause_tight: "clause_ok k c \<Longrightarrow> tight (clause_text k c)"
  using tight_append [of "fst c" "snd c" "'' = ''"] tight_append [of "fst c" "snd c" "'' ''"]
  by (cases "(k, c)" rule: clause_text.cases) (auto simp: clause_ok_def word_tight)

lemma clause_last: "clause_ok k c \<Longrightarrow> last (clause_text k c) \<noteq> CHR '',''"
  by (cases "(k, c)" rule: clause_text.cases) (auto simp: clause_ok_def word_ok_def dest: run_last)

lemma joined_tight: "ts \<noteq> [] \<Longrightarrow> list_all tight ts \<Longrightarrow> ascii_text sep \<Longrightarrow> tight (joined sep ts)"
  by (induction sep ts rule: joined.induct) (simp_all add: tight_append)

lemma joined_last: "ts \<noteq> [] \<Longrightarrow> list_all tight ts \<Longrightarrow> last (joined sep ts) = last (last ts)"
proof (induction sep ts rule: joined.induct)
  case (3 sep t u ts)
  have "joined sep (u # ts) \<noteq> []" using 3(3) by (cases ts) (auto simp: tight_def)
  with 3 show ?case by simp
qed simp_all

lemma section_tight:
  assumes "section_ok s"
  shows "tight (section_text s)" "last (section_text s) \<noteq> CHR '',''"
proof -
  let ?ts = "map (clause_text (fst s)) (snd s)"
  have t: "?ts \<noteq> []" "list_all tight ?ts" using assms by (auto simp: section_ok_def list_all_iff clause_tight)
  then have j: "tight (joined '', '' ?ts)" by (rule joined_tight) simp
  then show "tight (section_text s)" unfolding section_text_def by (intro tight_append section_word_tight) simp_all
  have "clause_ok (fst s) (last (snd s))" using assms by (auto simp: section_ok_def list_all_iff)
  then have "last (last ?ts) \<noteq> CHR '',''" using clause_last t(1) by (simp add: last_map)
  then show "last (section_text s) \<noteq> CHR '',''"
    using joined_last [OF t] j by (simp add: section_text_def tight_def)
qed

section \<open>Normalisation leaves printed expressions alone\<close>

lemma normalize_push:
  assumes "(of_char c :: nat) < 128"
    and "d = 0 \<longrightarrow> c \<noteq> CHR ''('' \<longrightarrow> c \<noteq> CHR '')'' \<longrightarrow> update_section_keyword_at uc before (c # rest) = None"
  shows "normalize_loop uc before (c # rest) d n =
    normalize_loop uc (before @ [c]) rest (if c = CHR ''('' then d + 1 else if c = CHR '')'' then d - 1 else d) (n @ [c])"
  using assms by (subst normalize_loop.simps) (auto simp: ascii_current)

lemma normalize_run:
  assumes "run_ok d w" "ascii_text before" "d = 0 \<longrightarrow> w \<noteq> [] \<longrightarrow> update_section_keyword_at uc before (w @ rest) = None"
  shows "normalize_loop uc before (w @ rest) d n = normalize_loop uc (before @ w) rest 0 (n @ w)"
  using assms
proof (induction d w arbitrary: before n rule: run_ok.induct)
  case (2 d c w)
  let ?d = "if c = CHR ''('' then d + 1 else if c = CHR '')'' then d - 1 else d"
  have g: "graphic c" "run_ok ?d w" using 2(5) by (auto split: if_splits)
  have a: "(of_char c :: nat) < 128" using g(1) by (rule graphic_ascii)
  have comma: "c = CHR '','' \<Longrightarrow> 0 < d" using 2(5) by (auto split: if_splits)
  have next_ok: "?d = 0 \<longrightarrow> w \<noteq> [] \<longrightarrow> update_section_keyword_at uc (before @ [c]) (w @ rest) = None"
    using g(1) a 2(6) comma by (auto intro!: keyword_at_inside)
  have "normalize_loop uc before (c # w @ rest) d n = normalize_loop uc (before @ [c]) (w @ rest) ?d (n @ [c])"
    using a 2(7) by (intro normalize_push) auto
  also have "\<dots> = normalize_loop uc ((before @ [c]) @ w) rest 0 ((n @ [c]) @ w)"
    using 2(1-4) [of "before @ [c]" "n @ [c]"] 2(5,6) g(2) a next_ok by (auto split: if_splits)
  finally show ?case by simp
qed simp

text \<open>A text that the normalisation copies when it stands at depth zero.\<close>

definition copied :: "unicode \<Rightarrow> string \<Rightarrow> string \<Rightarrow> string \<Rightarrow> bool" where
  "copied uc before t rest \<longleftrightarrow>
     (\<forall>n. normalize_loop uc before (t @ rest) 0 n = normalize_loop uc (before @ t) rest 0 (n @ t))"

lemma copied_append: "copied uc before a (b @ rest) \<Longrightarrow> copied uc (before @ a) b rest \<Longrightarrow> copied uc before (a @ b) rest"
  by (simp add: copied_def)

lemma copied_word: "word_ok w \<Longrightarrow> word_end rest \<Longrightarrow> ascii_text before \<Longrightarrow> copied uc before w rest"
  unfolding copied_def word_ok_def
  by (intro allI normalize_run) (auto intro!: keyword_at_search search_word run_graphic)

lemma copied_mark: "c \<in> {CHR '' '', CHR ''='', CHR '',''} \<Longrightarrow> copied uc before [c] rest"
  unfolding copied_def
  using normalize_push [of c 0 uc before rest] keyword_at_search [OF search_not_letter, of c uc before rest]
  by (auto simp: is_ascii_letter_def)

lemma copied_mark_Cons: "c \<in> {CHR '' '', CHR ''='', CHR '',''} \<Longrightarrow> copied uc (before @ [c]) t rest \<Longrightarrow> copied uc before (c # t) rest"
  using copied_append [OF copied_mark, of c uc before t rest] by simp

lemma copied_clause:
  assumes "clause_ok k c" "word_end rest" "ascii_text before"
  shows "copied uc before (clause_text k c) rest"
proof -
  have pair: "copied uc before (w @ CHR '' '' # t) rest" if "word_ok w" "copied uc (before @ w @ '' '') t rest" for w t
    using that assms(3) by (intro copied_append [OF copied_word copied_mark_Cons]) (simp_all add: word_end_def)
  have word: "copied uc (before @ t) w rest" if "word_ok w" "ascii_text t" for w t
    using that assms by (intro copied_word) simp_all
  have ascii: "word_ok w \<Longrightarrow> ascii_text w" for w using word_tight by (simp add: tight_def)
  show ?thesis using assms(1) word word [where t = "[]"]
    by (cases "(k, c)" rule: clause_text.cases)
      (auto simp: clause_ok_def ascii intro!: pair copied_mark_Cons)
qed

lemma clause_ascii: "clause_ok k c \<Longrightarrow> ascii_text (clause_text k c)"
  using clause_tight by (simp add: tight_def)

lemma copied_clauses:
  assumes "cs \<noteq> []" "list_all (clause_ok k) cs" "word_end rest" "ascii_text before"
  shows "copied uc before (joined '', '' (map (clause_text k) cs)) rest"
  using assms
proof (induction cs arbitrary: before rule: induct_list012)
  case (3 c c' cs)
  have "copied uc (before @ clause_text k c @ '', '') (joined '', '' (map (clause_text k) (c' # cs))) rest"
    using 3 by (intro 3(2)) (simp_all add: clause_ascii)
  then have "copied uc (before @ clause_text k c) ('', '' @ joined '', '' (map (clause_text k) (c' # cs))) rest"
    using copied_mark_Cons [of "CHR '','' " uc "before @ clause_text k c"] copied_mark_Cons [of "CHR '' ''" uc "before @ clause_text k c @ '',''"]
    by simp
  then show ?case using 3 by (auto intro!: copied_append copied_clause simp: word_end_def)
qed (simp_all add: copied_clause)

text \<open>What the normalised text may be where a section starts.\<close>

definition section_start :: "string \<Rightarrow> string \<Rightarrow> bool" where
  "section_start before n \<longleftrightarrow> ascii_text before \<and> before = n
     \<and> (n = [] \<or> (\<exists>x. n = x @ '' '' \<and> tight x \<and> last x \<noteq> CHR '',''))"

lemma normalize_section:
  assumes "section_start before n" "section_ok s" "word_end rest" "ascii_text rest"
  shows "normalize_loop uc before (section_text s @ rest) 0 n
    = normalize_loop uc (before @ section_text s) rest 0 (n @ section_text s)"
proof -
  let ?w = "section_word (fst s)" and ?t = "joined '', '' (map (clause_text (fst s)) (snd s))"
  have t: "tight ?t" using assms(2) by (intro joined_tight) (auto simp: section_ok_def list_all_iff clause_tight)
  have len: "3 \<le> length (?t @ rest)" if k: "fst s = KAdd"
  proof -
    obtain f v cs where "snd s = (f, v) # cs" "f \<noteq> []" "v \<noteq> []"
      using assms(2) k by (cases "snd s") (auto simp: section_ok_def clause_ok_def word_ok_def)
    then show ?thesis using k by (cases cs; cases f; cases v) simp_all
  qed
  have at: "update_section_keyword_at uc before (?w @ '' '' @ ?t @ rest) = Some ?w"
  proof -
    have "?w = ''ADD'' \<longrightarrow> 3 \<le> length (?t @ rest)" using len by (cases "fst s") simp_all
    then have "keyword_search uc section_words (?w @ '' '' @ ?t @ rest) = Some ?w"
      using t assms(4) by (intro search_keyword section_word_words) (simp_all add: tight_def)
    then show ?thesis using assms(1) by (subst keyword_at_start) (auto simp: section_start_def)
  qed
  obtain c w where w: "?w = c # w" "(of_char c :: nat) < 128" "c \<noteq> CHR ''(''" "c \<noteq> CHR '')''"
    by (cases "fst s") auto
  have norm: "(if trim_end uc n \<noteq> [] \<and> last (trim_end uc n) \<noteq> CHR '','' then trim_end uc n @ '' '' else trim_end uc n) = n"
  proof -
    have "trim_end uc [] = []" by (simp add: trim_end_def)
    moreover have "tight x \<Longrightarrow> x \<noteq> []" for x by (simp add: tight_def)
    ultimately show ?thesis using assms(1) by (auto simp: section_start_def)
  qed
  have rest: "skip_whitespace uc (drop (length ?w) (?w @ '' '' @ ?t @ rest)) = ?t @ rest"
    using skip_space_tight [OF t] by simp
  have "normalize_loop uc before (?w @ '' '' @ ?t @ rest) 0 n = normalize_loop uc (before @ ?w @ '' '') (?t @ rest) 0 (n @ ?w @ '' '')"
    using at w norm rest by (subst normalize_loop.simps) (simp add: Let_def)
  also have "\<dots> = normalize_loop uc ((before @ ?w @ '' '') @ ?t) rest 0 ((n @ ?w @ '' '') @ ?t)"
    using copied_clauses [of "snd s" "fst s" rest "before @ ?w @ '' ''" uc] assms section_word_tight
    by (auto simp: copied_def section_ok_def section_start_def tight_def)
  finally show ?thesis by (simp add: section_text_def)
qed

lemma expression_Cons:
  "ss \<noteq> [] \<Longrightarrow> update_text (s # ss) = section_text s @ '' '' @ update_text ss"
  by (cases ss) (simp_all add: update_text_def)

lemma expression_ascii: "list_all section_ok ss \<Longrightarrow> ascii_text (update_text ss)"
proof (induction ss)
  case (Cons s ss)
  then have "ascii_text (section_text s)" using section_tight by (simp add: tight_def)
  then show ?case using Cons by (cases "ss = []") (simp_all add: expression_Cons, simp add: update_text_def)
qed (simp add: update_text_def)

lemma normalize_expression:
  assumes "section_start before n" "list_all section_ok ss"
  shows "normalize_loop uc before (update_text ss) 0 n = n @ update_text ss"
  using assms
proof (induction ss arbitrary: before n)
  case Nil
  then show ?case by (subst normalize_loop.simps) (simp add: update_text_def current_char_def)
next
  case (Cons s ss)
  have ok: "section_ok s" "list_all section_ok ss" using Cons.prems by simp_all
  show ?case
  proof (cases "ss = []")
    case True
    have "normalize_loop uc before (section_text s @ []) 0 n = normalize_loop uc (before @ section_text s) [] 0 (n @ section_text s)"
      using Cons.prems(1) ok(1) by (intro normalize_section) (simp_all add: word_end_def)
    then show ?thesis using True
      by (simp add: update_text_def normalize_loop.simps [of uc _ "[]"] current_char_def)
  next
    case False
    let ?e = "update_text ss"
    have step: "normalize_loop uc before (section_text s @ '' '' @ ?e) 0 n
        = normalize_loop uc (before @ section_text s) ('' '' @ ?e) 0 (n @ section_text s)"
      using Cons.prems(1) ok expression_ascii by (intro normalize_section) (simp_all add: word_end_def)
    also have "\<dots> = normalize_loop uc (before @ section_text s @ '' '') ?e 0 (n @ section_text s @ '' '')"
      using copied_mark [of "CHR '' ''" uc "before @ section_text s" ?e] by (simp add: copied_def)
    also have "\<dots> = n @ section_text s @ '' '' @ ?e"
    proof -
      have "tight (n @ section_text s)" "last (n @ section_text s) \<noteq> CHR '',''"
        using section_tight [OF ok(1)] Cons.prems(1) by (auto simp: section_start_def tight_def)
      then have "section_start (before @ section_text s @ '' '') (n @ section_text s @ '' '')"
        using Cons.prems(1) by (auto simp: section_start_def tight_def intro!: exI [of _ "n @ section_text s"])
      from Cons.IH [OF this ok(2)] show ?thesis by simp
    qed
    finally show ?thesis using False by (simp add: expression_Cons)
  qed
qed

lemma normalize_printed:
  "list_all section_ok ss \<Longrightarrow> normalize_update_section_keywords uc (update_text ss) = update_text ss"
  using normalize_expression [of "[]" "[]" ss uc] by (simp add: normalize_update_section_keywords_def section_start_def)

section \<open>Splitting printed expressions\<close>

lemma split_run:
  assumes "run_ok d w"
  shows "split_parts_loop uc cur (w @ rest) (int d) parts = split_parts_loop uc (cur @ w) rest 0 parts"
  using assms
proof (induction d w arbitrary: cur rule: run_ok.induct)
  case (2 d c w)
  then have "c \<noteq> CHR '' ''" by auto
  with 2 show ?case by (auto simp: of_nat_diff add.commute split: if_splits)
qed simp

lemma starts_with_split: "starts_with s p \<Longrightarrow> \<exists>x. s = p @ x"
  unfolding starts_with_def by (metis append_take_drop_id)

lemma split_keyword_word:
  assumes "list_all graphic w" "\<not> keyword_word w" "word_end rest"
  shows "split_keyword (CHR '' '' # w @ rest) = None"
proof -
  have no: "\<not> starts_with (w @ rest) (kw @ '' '')" if kw: "kw \<in> set section_words" for kw
  proof
    assume "starts_with (w @ rest) (kw @ '' '')"
    then obtain x where eq: "w @ rest = kw @ '' '' @ x"
      using starts_with_split by fastforce
    have g: "CHR '' '' \<notin> set w" "CHR '' '' \<notin> set kw" "CHR '','' \<notin> set kw"
      using assms(1) kw by (auto simp: section_words_def list_all_iff)
    have "takeWhile (\<lambda>c. c \<noteq> CHR '' '') (w @ rest) = w @ takeWhile (\<lambda>c. c \<noteq> CHR '' '') rest"
      using g(1) by (intro takeWhile_append2) auto
    moreover have "takeWhile (\<lambda>c. c \<noteq> CHR '' '') (kw @ '' '' @ x) = kw"
      using g(2) by (subst takeWhile_append2) auto
    ultimately have "w @ takeWhile (\<lambda>c. c \<noteq> CHR '' '') rest = kw" using eq by simp
    moreover have "rest = [] \<or> hd rest = CHR '' ''"
      using assms(3) g(3) \<open>w @ _ = kw\<close> by (cases rest) (auto simp: word_end_def)
    ultimately have "w = kw" by (cases rest) auto
    then show False using assms(2) kw by (auto simp: keyword_word_def list_ex_iff eq_ignore_ascii_case_def)
  qed
  have "starts_with (c # s) (c # t) = starts_with s t" for c s and t :: string by (simp add: starts_with_def)
  then show ?thesis using no [of "''SET''"] no [of "''REMOVE''"] no [of "''ADD''"] no [of "''DELETE''"]
    by (simp add: split_keyword_def update_section_keywords_def section_words_def)
qed

lemma split_word: "word_ok w \<Longrightarrow> split_parts_loop uc cur (w @ rest) 0 parts = split_parts_loop uc (cur @ w) rest 0 parts"
  using split_run [of 0 w] by (simp add: word_ok_def)

lemma split_space:
  "split_keyword (CHR '' '' # rest) = None \<Longrightarrow>
    split_parts_loop uc cur (CHR '' '' # rest) 0 parts = split_parts_loop uc (cur @ '' '') rest 0 parts"
  by simp

declare split_parts_loop.simps(2) [simp del]

lemma split_space_word:
  assumes "word_ok w" "word_end rest"
  shows "split_parts_loop uc cur (CHR '' '' # w @ rest) 0 parts = split_parts_loop uc (cur @ CHR '' '' # w) rest 0 parts"
proof -
  have "split_keyword (CHR '' '' # w @ rest) = None"
    using assms run_graphic by (intro split_keyword_word) (auto simp: word_ok_def)
  then show ?thesis using split_word [OF assms(1), of uc "cur @ '' ''"] by (simp add: split_space)
qed

lemma split_space_equals:
  "split_parts_loop uc cur (CHR '' '' # CHR ''='' # rest) 0 parts = split_parts_loop uc (cur @ '' ='') rest 0 parts"
proof -
  have "split_keyword (CHR '' '' # CHR ''='' # rest) = None"
    by (simp add: split_keyword_def update_section_keywords_def starts_with_def)
  then show ?thesis by (simp add: split_space split_parts_loop.simps(2) [of uc _ "CHR ''=''"])
qed

lemma split_clause:
  assumes "clause_ok k c" "word_end rest"
  shows "split_parts_loop uc cur (clause_text k c @ rest) 0 parts = split_parts_loop uc (cur @ clause_text k c) rest 0 parts"
  using assms
  by (cases "(k, c)" rule: clause_text.cases) (auto simp: clause_ok_def split_word split_space_word split_space_equals)

text \<open>The parts of the clauses after the first of a section.\<close>

lemma push_tight [simp]:
  "tight t \<Longrightarrow> push_part uc t parts = parts @ [t]" "tight t \<Longrightarrow> push_part uc (CHR '' '' # t) parts = parts @ [t]"
  "tight t \<Longrightarrow> push_part uc (t @ '' '') parts = parts @ [t]"
  by (auto simp: push_part_def tight_def)

lemma joined_first_word:
  assumes "word_end rest"
  shows "\<exists>t. joined '', '' (map (clause_text k) (c # cs)) @ rest = fst c @ t \<and> word_end t"
proof -
  have "\<exists>t. clause_text k c @ x = fst c @ t \<and> word_end t" if "word_end x" for x
    using that by (cases "(k, c)" rule: clause_text.cases) (auto simp: word_end_def)
  from this [of rest] this [of "'', '' @ joined '', '' (map (clause_text k) cs) @ rest"] assms
  show ?thesis by (cases cs) (auto simp: word_end_def)
qed

lemma split_clauses:
  assumes "list_all (clause_ok k) (c # cs)" "word_end rest" "rest = [] \<or> hd rest = CHR '' ''"
    and "\<And>parts. push_part uc (cur @ clause_text k c) parts = parts @ [first]"
  shows "\<exists>cur'. split_parts_loop uc cur (joined '', '' (map (clause_text k) (c # cs)) @ rest) 0 parts
      = split_parts_loop uc cur' rest 0 (parts @ butlast (first # map (clause_text k) cs))
    \<and> (\<forall>parts. push_part uc cur' parts = parts @ [last (first # map (clause_text k) cs)])"
  using assms(1,4)
proof (induction cs arbitrary: c cur first parts)
  case Nil
  then show ?case using split_clause [of k c rest uc cur parts] assms(2) by auto
next
  case (Cons c' cs)
  let ?j = "joined '', '' (map (clause_text k) (c' # cs))"
  have "split_parts_loop uc cur (clause_text k c @ '', '' @ ?j @ rest) 0 parts
      = split_parts_loop uc (cur @ clause_text k c) ('', '' @ ?j @ rest) 0 parts"
    using Cons.prems by (intro split_clause) (simp_all add: word_end_def)
  also have "\<dots> = split_parts_loop uc [] (CHR '' '' # ?j @ rest) 0 (parts @ [first])"
    using Cons.prems(2) by (simp add: split_parts_loop.simps(2))
  also have "\<dots> = split_parts_loop uc '' '' (?j @ rest) 0 (parts @ [first])"
  proof -
    obtain t where t: "?j @ rest = fst c' @ t" "word_end t" using joined_first_word [OF assms(2)] by metis
    have "split_keyword (CHR '' '' # ?j @ rest) = None"
      unfolding t(1) using Cons.prems(1) t(2) run_graphic by (intro split_keyword_word) (auto simp: clause_ok_def word_ok_def)
    then show ?thesis by (simp add: split_space)
  qed
  finally show ?case
    using Cons.IH [of c' "'' ''" "clause_text k c'" "parts @ [first]"] Cons.prems(1) by (simp add: clause_tight)
qed

section \<open>Planning printed expressions\<close>

text \<open>The parts of a section: its keyword stays with the first clause.\<close>

fun section_parts :: "section_kind \<times> (string \<times> string) list \<Rightarrow> string list" where
  "section_parts (k, []) = []"
| "section_parts (k, c # cs) = (section_word k @ '' '' @ clause_text k c) # map (clause_text k) cs"

lemma section_first_tight: "clause_ok k c \<Longrightarrow> tight (section_word k @ '' '' @ clause_text k c)"
  using tight_append [OF section_word_tight clause_tight, of k c "'' ''"] by simp

lemma split_section_keyword:
  assumes "\<And>parts. push_part uc cur parts = parts @ [p]"
  shows "split_parts_loop uc cur ('' '' @ section_word k @ '' '' @ rest) 0 parts
    = split_parts_loop uc (section_word k @ '' '') rest 0 (parts @ [p])"
  using assms by (cases k) (simp_all add: split_parts_loop.simps split_keyword_def update_section_keywords_def starts_with_def)

lemma split_sections:
  assumes "section_ok s" "list_all section_ok ss"
  shows "split_parts_loop uc (section_word (fst s) @ '' '')
      (joined '', '' (map (clause_text (fst s)) (snd s)) @ (if ss = [] then [] else '' '' @ update_text ss)) 0 parts
    = parts @ concat (map section_parts (s # ss))"
  using assms
proof (induction ss arbitrary: s parts)
  case Nil
  obtain k c cs where s: "s = (k, c # cs)" using Nil(1) by (cases s; cases "snd s") (auto simp: section_ok_def)
  have ok: "list_all (clause_ok k) (c # cs)" using Nil(1) s by (simp add: section_ok_def)
  let ?ps = "(section_word k @ '' '' @ clause_text k c) # map (clause_text k) cs"
  obtain cur where "split_parts_loop uc (section_word k @ '' '') (joined '', '' (map (clause_text k) (c # cs)) @ []) 0 parts
      = split_parts_loop uc cur [] 0 (parts @ butlast ?ps)" "\<forall>parts. push_part uc cur parts = parts @ [last ?ps]"
    using split_clauses [OF ok, of "[]" uc "section_word k @ '' ''" "section_word k @ '' '' @ clause_text k c" parts] ok
      section_first_tight [of k c]
    by (auto simp: word_end_def)
  then show ?case using s append_butlast_last_id [of ?ps] by simp
next
  case (Cons s' ss)
  obtain k c cs where s: "s = (k, c # cs)" using Cons.prems(1) by (cases s; cases "snd s") (auto simp: section_ok_def)
  have ok: "list_all (clause_ok k) (c # cs)" using Cons.prems(1) s by (simp add: section_ok_def)
  let ?ps = "(section_word k @ '' '' @ clause_text k c) # map (clause_text k) cs"
  let ?rest = "joined '', '' (map (clause_text (fst s')) (snd s')) @ (if ss = [] then [] else '' '' @ update_text ss)"
  have e: "update_text (s' # ss) = section_word (fst s') @ '' '' @ ?rest"
    by (cases "ss = []") (simp_all add: expression_Cons section_text_def, simp add: update_text_def section_text_def)
  obtain cur where c: "split_parts_loop uc (section_word k @ '' '')
      (joined '', '' (map (clause_text k) (c # cs)) @ '' '' @ update_text (s' # ss)) 0 parts
      = split_parts_loop uc cur ('' '' @ update_text (s' # ss)) 0 (parts @ butlast ?ps)"
    "\<And>parts. push_part uc cur parts = parts @ [last ?ps]"
    using split_clauses [OF ok, of "'' '' @ update_text (s' # ss)" uc "section_word k @ '' ''"
        "section_word k @ '' '' @ clause_text k c" parts] ok section_first_tight [of k c]
    by (auto simp: word_end_def)
  show ?case
    using c(1) split_section_keyword [OF c(2), of "fst s'" ?rest "parts @ butlast ?ps"]
      Cons.IH [of s' "parts @ ?ps"] Cons.prems(2) s append_butlast_last_id [of ?ps]
    unfolding e by simp
qed

lemma split_printed:
  assumes "list_all section_ok ss"
  shows "split_operation_parts_preserving_functions uc (update_text ss) = concat (map section_parts ss)"
proof (cases ss)
  case Nil
  then show ?thesis
    by (simp add: split_operation_parts_preserving_functions_def update_text_def push_part_def trim_def)
next
  case (Cons s ss')
  let ?rest = "joined '', '' (map (clause_text (fst s)) (snd s)) @ (if ss' = [] then [] else '' '' @ update_text ss')"
  have e: "update_text ss = section_word (fst s) @ '' '' @ ?rest"
    unfolding Cons
    by (cases "ss' = []") (simp_all add: expression_Cons section_text_def, simp add: update_text_def section_text_def)
  obtain k c cs where s: "s = (k, c # cs)" using assms Cons by (cases s; cases "snd s") (auto simp: section_ok_def)
  obtain t where t: "?rest = fst c @ t" "word_end t"
  proof -
    have "word_end (if ss' = [] then [] else '' '' @ update_text ss')" by (simp add: word_end_def)
    from joined_first_word [OF this, of k c cs] show thesis using that s by auto
  qed
  have "split_keyword (CHR '' '' # ?rest) = None"
    unfolding t(1) using assms Cons s t(2) run_graphic
    by (intro split_keyword_word) (auto simp: section_ok_def clause_ok_def word_ok_def)
  then have "split_parts_loop uc [] (section_word k @ '' '' @ ?rest) 0 [] = split_parts_loop uc (section_word k @ '' '') ?rest 0 []"
    by (cases k) (simp_all add: split_parts_loop.simps)
  then show ?thesis using split_sections [of s ss' uc "[]"] assms Cons s e
    by (simp add: split_operation_parts_preserving_functions_def)
qed

text \<open>
  The plan of a clause, and the clauses as the planner takes them: a clause after the first of a
  \<open>DELETE\<close> section is planned as \<open>ADD\<close>.
\<close>

definition pair_plan :: "update_env \<Rightarrow> names option \<Rightarrow> string \<Rightarrow> (string \<Rightarrow> update_value_plan \<Rightarrow> update_operation_plan)
    \<Rightarrow> string \<times> string \<Rightarrow> update_error + update_operation_plan" where
  "pair_plan env names kind constructor c =
     ebind (resolve_document_path (fst c) names) (\<lambda>field.
     ebind (resolve_attribute_value_plan env names (snd c)) (\<lambda>r.
     case r of Inr value \<Rightarrow> Inr (constructor field value) | Inl _ \<Rightarrow> Inl (FunctionNotSupported kind)))"

fun clause_plan :: "update_env \<Rightarrow> names option \<Rightarrow> section_kind \<times> (string \<times> string) \<Rightarrow> update_error + update_operation_plan" where
  "clause_plan env names (KSet, c) = set_operation_plan env names (fst c) (snd c)"
| "clause_plan env names (KRemove, c) = ebind (resolve_document_path (fst c) names) (\<lambda>field. Inr (PlanRemove field))"
| "clause_plan env names (KAdd, c) = pair_plan env names ''ADD'' PlanAdd c"
| "clause_plan env names (KDelete, c) = pair_plan env names ''DELETE'' PlanDelete c"

definition continued :: "section_kind \<Rightarrow> section_kind" where
  "continued k = (if k = KDelete then KAdd else k)"

fun planned_clauses :: "section_kind \<times> (string \<times> string) list \<Rightarrow> (section_kind \<times> (string \<times> string)) list" where
  "planned_clauses (k, []) = []"
| "planned_clauses (k, c # cs) = (k, c) # map (Pair (continued k)) cs"

lemma split_once_append: "c \<notin> set a \<Longrightarrow> split_once c (a @ c # b) = Some (a, b)"
  by (simp add: split_once_def takeWhile_tail dropWhile_append)

lemma split_assignment_clause:
  "word_ok f \<Longrightarrow> word_ok v \<Longrightarrow> split_assignment uc (f @ '' = '' @ v) = Some (f, v)"
  using split_once_append [of "CHR ''=''" "f @ '' ''" "CHR '' '' # v"] word_not_comma [of f]
  by (simp add: split_assignment_def word_tight)

lemma pair_operation_clause:
  "word_ok (fst c) \<Longrightarrow> word_ok (snd c) \<Longrightarrow>
    pair_operation_plan env names kind constructor (fst c @ '' '' @ snd c) = pair_plan env names kind constructor c"
  using split_once_append [of "CHR '' ''" "fst c" "snd c"] word_not_comma [of "fst c"]
  by (cases c) (simp add: pair_operation_plan_def pair_plan_def resolve_attribute_name_def word_tight)

lemma first_part_plan:
  assumes "clause_ok k c"
  shows "plan_part env names first (section_word k @ '' '' @ clause_text k c) = clause_plan env names (k, c)"
proof -
  note t = clause_tight [OF assms]
  show ?thesis using assms t
    by (cases "(k, c)" rule: clause_text.cases)
      (simp_all add: plan_part_def strip_prefix_def starts_with_def Let_def clause_ok_def split_assignment_clause [simplified]
        pair_operation_clause [of "(_, _)", simplified] remove_operation_plan_def resolve_attribute_name_def word_tight)
qed

lemma word_no_prefix:
  assumes "word_ok f" "word_end rest" "kw \<in> set section_words"
  shows "strip_prefix (kw @ '' '') (f @ rest) = None" "f @ rest \<noteq> kw"
proof -
  have "split_keyword (CHR '' '' # f @ rest) = None"
    using assms(1,2) run_graphic by (intro split_keyword_word) (auto simp: word_ok_def)
  then show "strip_prefix (kw @ '' '') (f @ rest) = None"
    using assms(3) by (auto simp: split_keyword_def update_section_keywords_def section_words_def strip_prefix_def
      starts_with_def split: if_splits)
  show "f @ rest \<noteq> kw"
  proof
    assume eq: "f @ rest = kw"
    have "CHR '' '' \<notin> set kw" "CHR '','' \<notin> set kw" using assms(3) by (auto simp: section_words_def)
    with eq assms(2) have "rest = []" by (cases rest) (auto simp: word_end_def)
    with eq assms(1,3) show False by (auto simp: word_ok_def keyword_word_def list_ex_iff eq_ignore_ascii_case_def)
  qed
qed

lemma continuation_part_plan:
  assumes "clause_ok k c"
  shows "plan_part env names False (clause_text k c) = clause_plan env names (continued k, c)"
proof -
  obtain r where r: "clause_text k c = fst c @ r" "word_end r"
    by (cases "(k, c)" rule: clause_text.cases) (auto simp: word_end_def)
  have f: "word_ok (fst c)" using assms by (simp add: clause_ok_def)
  have no: "clause_text k c \<noteq> ''SET''" "strip_prefix ''SET '' (clause_text k c) = None"
    "strip_prefix ''ADD '' (clause_text k c) = None" "strip_prefix ''REMOVE '' (clause_text k c) = None"
    "strip_prefix ''DELETE '' (clause_text k c) = None"
    using word_no_prefix(2) [OF f r(2), of "''SET''"] word_no_prefix(1) [OF f r(2), of "''SET''"]
      word_no_prefix(1) [OF f r(2), of "''ADD''"] word_no_prefix(1) [OF f r(2), of "''REMOVE''"]
      word_no_prefix(1) [OF f r(2), of "''DELETE''"] r(1)
    by (simp_all add: section_words_def)
  note w = word_not_comma [OF f]
  have v: "k \<noteq> KRemove \<Longrightarrow> word_ok (snd c) \<and> CHR ''='' \<notin> set (snd c)"
    using assms word_not_comma by (auto simp: clause_ok_def)
  have once: "split_once (CHR '' '') (fst c @ CHR '' '' # snd c) = Some (fst c, snd c)"
    using w by (intro split_once_append) simp
  show ?thesis using no w v f once
    by (cases "(k, c)" rule: clause_text.cases)
      (auto simp: plan_part_def could_be_continuation_def continuation_plan_def continued_def
        split_assignment_clause [simplified] pair_operation_clause [of "(_, _)", simplified]
        remove_operation_plan_def resolve_attribute_name_def word_tight)
qed

lemma plan_parts_more:
  "ops \<noteq> [] \<Longrightarrow> plan_parts env names parts ops = ebind (try_map (plan_part env names False) parts) (\<lambda>ps. Inr (ops @ ps))"
proof (induction parts arbitrary: ops)
  case (Cons p parts)
  then show ?case by (cases "plan_part env names False p"; cases "try_map (plan_part env names False) parts") simp_all
qed simp

lemma try_map_append: "try_map f (xs @ ys) = ebind (try_map f xs) (\<lambda>as. ebind (try_map f ys) (\<lambda>bs. Inr (as @ bs)))"
proof (induction xs)
  case Nil
  then show ?case by (cases "try_map f ys") simp_all
next
  case (Cons x xs)
  then show ?case by (cases "f x"; cases "try_map f xs"; cases "try_map f ys") simp_all
qed

lemma try_map_cong: "list_all2 (\<lambda>x y. f x = g y) xs ys \<Longrightarrow> try_map f xs = try_map g ys"
  by (induction rule: list_all2_induct) simp_all

lemma parts_plans:
  "section_ok s \<Longrightarrow> list_all2 (\<lambda>p c. plan_part env names False p = clause_plan env names c) (section_parts s) (planned_clauses s)"
  by (cases s rule: section_parts.cases)
    (auto simp: section_ok_def first_part_plan [simplified] continuation_part_plan list_all2_map1 list_all2_map2 list_all_iff
      list.rel_refl_strong)

lemma parts_plans_all:
  "list_all section_ok ss \<Longrightarrow>
    list_all2 (\<lambda>p c. plan_part env names False p = clause_plan env names c) (concat (map section_parts ss)) (concat (map planned_clauses ss))"
  by (induction ss) (simp_all add: list_all2_appendI parts_plans)

text \<open>
  C4: An update expression is planned clause by clause, in the order of its text: for every list of
  \<open>SET\<close>, \<open>REMOVE\<close>, \<open>ADD\<close> and \<open>DELETE\<close> sections of one or more clauses whose names and values are words
  (balanced parentheses, commas only inside them, no section keyword), planning the printed expression
  gives the plan of each clause under the keyword of its section, or the error of the first clause that has
  none. There is one exception: the second and later clauses of a \<open>DELETE\<close> section are planned as \<open>ADD\<close>.
\<close>

theorem printed_expression_plan:
  assumes "list_all section_ok ss"
  shows "parse_update_expression_plan env names (update_text ss) =
    try_map (clause_plan env names) (concat (map planned_clauses ss))"
proof -
  let ?parts = "concat (map section_parts ss)"
  have "plan_parts env names ?parts [] = try_map (plan_part env names False) ?parts"
  proof (cases ss)
    case (Cons s ss')
    obtain k c cs where s: "s = (k, c # cs)" using assms Cons by (cases s; cases "snd s") (auto simp: section_ok_def)
    then have "clause_ok k c" using assms Cons by (simp add: section_ok_def)
    then have "plan_part env names True (section_word k @ '' '' @ clause_text k c)
        = plan_part env names False (section_word k @ '' '' @ clause_text k c)" by (simp only: first_part_plan)
    then show ?thesis unfolding Cons s by (simp add: plan_parts_more)
  qed simp
  also have "\<dots> = try_map (clause_plan env names) (concat (map planned_clauses ss))"
    by (rule try_map_cong) (rule parts_plans_all [OF assms])
  finally show ?thesis
    by (simp add: parse_update_expression_plan_def normalize_printed [OF assms] split_printed [OF assms])
qed

definition plain_env :: update_env where
  "plain_env = \<lparr>ue_uc = \<lparr>uc_whitespace = (\<lambda>_. False), uc_alphabetic = (\<lambda>_. False), uc_numeric = (\<lambda>_. False)\<rparr>,
     ue_json = (\<lambda>_. None)\<rparr>"

lemma placeholder_plan: "resolve_attribute_value_plan plain_env names [CHR '':'', c] = Inr (Inr (PPlaceholder [CHR '':'', c]))"
  if "c \<notin> {dquote, CHR ''('', CHR '')'', CHR ''+'', CHR ''-''}"
  using that by (subst resolve_attribute_value_plan.simps)
    (simp add: split_top_level_arithmetic_def starts_with_def)

theorem printed_expression_plan_witness:
  "parse_update_expression_plan plain_env None ''DELETE a :x, b :y'' =
     Inr [PlanDelete ''a'' (PPlaceholder '':x''), PlanAdd ''b'' (PPlaceholder '':y'')]"
proof -
  let ?ss = "[(KDelete, [(''a'', '':x''), (''b'', '':y'')])]"
  have ok: "list_all section_ok ?ss"
    by (simp add: section_ok_def clause_ok_def word_ok_def graphic_def keyword_word_def section_words_def eq_ignore_ascii_case_def)
  have "update_text ?ss = ''DELETE a :x, b :y''" by (simp add: update_text_def section_text_def)
  with printed_expression_plan [OF ok, of plain_env None] show ?thesis
    by (simp add: pair_plan_def resolve_document_path_def continued_def placeholder_plan)
qed

text \<open>
  A lower-case keyword is not recognised when byte six of the rest of the expression is inside a
  character: the prefix that is compared with \<open>REMOVE\<close> does not exist, and the search ends.
\<close>

lemma lower_case_add_unknown:
  "parse_update_expression_plan plain_env None (''add a'' @ [CHR 0xC3, CHR 0xA9] @ '' :v'')
    = Inl (UnknownOperation (''add a'' @ [CHR 0xC3, CHR 0xA9] @ '' :v''))"
  by code_simp

end
