(* ===== verification/Update_Value_Printing.thy ===== *)
theory Update_Value_Printing
  imports Update_Printing
begin

text \<open>
  Printed values of update expressions and the theorem that the resolver reads them back.
\<close>

section \<open>Printed values\<close>

fun operator_text :: "arithmetic_operator \<Rightarrow> string" where
  "operator_text OpAdd = '' + ''"
| "operator_text OpSubtract = '' - ''"

fun plan_text :: "update_value_plan \<Rightarrow> string" where
  "plan_text (PPlaceholder name) = name"
| "plan_text (PLiteral v) = []"
| "plan_text (PPath path) = path"
| "plan_text (PIfNotExists path operand) = ''if_not_exists('' @ path @ '', '' @ plan_text operand @ '')''"
| "plan_text (PListAppend operand1 operand2) = ''list_append('' @ plan_text operand1 @ '', '' @ plan_text operand2 @ '')''"
| "plan_text (PArithmetic lhs operator rhs) = plan_text lhs @ operator_text operator @ plan_text rhs"

text \<open>A name of letters, digits, underscores, points and index brackets.\<close>

definition name_char :: "char \<Rightarrow> bool" where
  "name_char c \<longleftrightarrow> is_ascii_letter c \<or> is_ascii_digit c \<or> c \<in> {CHR ''_'', CHR ''.'', CHR ''['', CHR '']''}"

definition value_path_ok :: "string \<Rightarrow> bool" where
  "value_path_ok p \<longleftrightarrow> p \<noteq> [] \<and> list_all name_char p \<and> is_ascii_letter (hd p) \<and> p \<notin> {''true'', ''false'', ''null''}"

fun is_sum :: "update_value_plan \<Rightarrow> bool" where
  "is_sum (PArithmetic _ _ _) = True"
| "is_sum _ = False"

text \<open>The plans that have a text: the left side of an operator is not itself a sum.\<close>

fun printable_plan :: "update_value_plan \<Rightarrow> bool" where
  "printable_plan (PPlaceholder name) \<longleftrightarrow> (\<exists>n. name = CHR '':'' # n \<and> list_all name_char n)"
| "printable_plan (PLiteral v) \<longleftrightarrow> False"
| "printable_plan (PPath path) \<longleftrightarrow> value_path_ok path"
| "printable_plan (PIfNotExists path operand) \<longleftrightarrow> value_path_ok path \<and> printable_plan operand"
| "printable_plan (PListAppend operand1 operand2) \<longleftrightarrow> printable_plan operand1 \<and> printable_plan operand2"
| "printable_plan (PArithmetic lhs operator rhs) \<longleftrightarrow> printable_plan lhs \<and> \<not> is_sum lhs \<and> printable_plan rhs"

text \<open>Texts whose parentheses match and that hold no string and none of \<open>marks\<close> outside parentheses.\<close>

fun nested_run :: "char list \<Rightarrow> nat \<Rightarrow> string \<Rightarrow> bool" where
  "nested_run marks d [] \<longleftrightarrow> d = 0"
| "nested_run marks d (c # w) \<longleftrightarrow> c \<noteq> dquote \<and>
     (if c = CHR ''('' then nested_run marks (d + 1) w
      else if c = CHR '')'' then 0 < d \<and> nested_run marks (d - 1) w
      else (c \<in> set marks \<longrightarrow> 0 < d) \<and> nested_run marks d w)"

lemma nested_run_append: "nested_run marks 0 b \<Longrightarrow> nested_run marks d a \<Longrightarrow> nested_run marks d (a @ b)"
  by (induction marks d a rule: nested_run.induct) (auto split: if_splits)

lemma nested_run_inside: "nested_run marks d w \<Longrightarrow> nested_run marks' e rest \<Longrightarrow> 0 < e \<Longrightarrow> nested_run marks' (d + e) (w @ rest)"
proof (induction w arbitrary: d)
  case (Cons c w)
  have close: "0 < d \<Longrightarrow> d + e - Suc 0 = d - Suc 0 + e" by simp
  show ?case
  proof (cases "c = CHR ''(''")
    case True
    then show ?thesis using Cons.IH [of "d + 1"] Cons.prems by simp
  next
    case False
    show ?thesis
    proof (cases "c = CHR '')''")
      case True
      then show ?thesis using Cons.IH [of "d - 1"] Cons.prems close by simp
    next
      case other: False
      then show ?thesis using False Cons.IH [of d] Cons.prems by simp
    qed
  qed
qed simp

lemma plain_run: "list_all (\<lambda>c. c \<notin> {dquote, CHR ''('', CHR '')''} \<and> c \<notin> set marks) p \<Longrightarrow> nested_run marks 0 p"
  by (induction p) simp_all

lemma name_char_plain: "name_char c \<Longrightarrow> c \<notin> {dquote, CHR ''('', CHR '')'', CHR ''+'', CHR ''-'', CHR '',''}"
  by (auto simp: name_char_def is_ascii_letter_def is_ascii_digit_def)

lemma name_run: "list_all name_char p \<Longrightarrow> set marks \<subseteq> {CHR ''+'', CHR ''-'', CHR '',''} \<Longrightarrow> nested_run marks 0 p"
  by (rule plain_run) (use name_char_plain in \<open>auto simp: list_all_iff\<close>)

lemma arguments_run:
  assumes "nested_run [] 0 a" "nested_run [] 0 b" "nested_run marks 0 f"
  shows "nested_run marks 0 (f @ ''('' @ a @ '', '' @ b @ '')'')"
proof -
  have "nested_run marks (0 + 1) (b @ '')'')" using assms(2) by (rule nested_run_inside) simp_all
  then have "nested_run marks 1 ('', '' @ b @ '')'')" by simp
  then have "nested_run marks (0 + 1) (a @ '', '' @ b @ '')'')" using assms(1) nested_run_inside [OF assms(1), of marks 1] by simp
  then have "nested_run marks 0 (''('' @ a @ '', '' @ b @ '')'')" by simp
  then show ?thesis using assms(3) by (rule nested_run_append)
qed

lemma split_arithmetic_run:
  "nested_run [CHR ''+'', CHR ''-''] d w \<Longrightarrow>
    split_arithmetic_loop uc before (w @ rest) d False esc = split_arithmetic_loop uc (before @ w) rest 0 False esc"
proof (induction "[CHR ''+'', CHR ''-'']" d w arbitrary: before rule: nested_run.induct)
  case (2 d c w)
  then show ?case by (auto split: if_splits)
qed simp

lemma split_comma_run:
  "nested_run [CHR '',''] d w \<Longrightarrow>
    split_comma_loop before (w @ rest) d False esc comma = split_comma_loop (before @ w) rest 0 False esc comma"
proof (induction "[CHR '','']" d w arbitrary: before rule: nested_run.induct)
  case (2 d c w)
  then show ?case by (auto split: if_splits)
qed simp

lemma plan_run: "printable_plan plan \<Longrightarrow> nested_run [CHR '',''] 0 (plan_text plan)
    \<and> nested_run [] 0 (plan_text plan) \<and> (\<not> is_sum plan \<longrightarrow> nested_run [CHR ''+'', CHR ''-''] 0 (plan_text plan))"
proof (induction plan)
  case (PPlaceholder name)
  then show ?case using name_run by auto
next
  case (PPath path)
  then show ?case using name_run by (auto simp: value_path_ok_def)
next
  case (PIfNotExists path operand)
  have "nested_run [] 0 path" using PIfNotExists.prems by (intro name_run) (auto simp: value_path_ok_def)
  then show ?case
    using PIfNotExists arguments_run [of path "plan_text operand" _ "''if_not_exists''"] by simp
next
  case (PListAppend operand1 operand2)
  then show ?case using arguments_run [of "plan_text operand1" "plan_text operand2" _ "''list_append''"] by simp
next
  case (PArithmetic lhs operator rhs)
  have "nested_run marks 0 (operator_text operator @ plan_text rhs)" if "nested_run marks 0 (plan_text rhs)" "marks \<in> {[], [CHR '','']}" for marks
    using that by (cases operator) auto
  then show ?case using PArithmetic nested_run_append by auto
qed simp_all

section \<open>Resolving printed values\<close>

lemma name_graphic: "name_char c \<Longrightarrow> graphic c"
  by (auto simp: name_char_def graphic_def is_ascii_letter_def is_ascii_digit_def)

lemma path_tight: "value_path_ok p \<Longrightarrow> tight p"
  using name_graphic by (auto simp: value_path_ok_def tight_def list_all_iff graphic_ascii)

lemma plan_tight: "printable_plan plan \<Longrightarrow> tight (plan_text plan)"
proof (induction plan)
  case (PPlaceholder name)
  then obtain n where n: "name = CHR '':'' # n" "list_all name_char n" by auto
  then have "last name = CHR '':'' \<or> last name \<in> set n" by auto
  then show ?case using n name_graphic by (auto simp: tight_def list_all_iff graphic_ascii graphic_def)
next
  case (PIfNotExists path operand)
  then show ?case using path_tight [of path] by (simp add: tight_def graphic_def)
next
  case (PListAppend operand1 operand2)
  then show ?case by (simp add: tight_def graphic_def)
next
  case (PArithmetic lhs operator rhs)
  then show ?case using tight_append [of "plan_text lhs" "plan_text rhs" "operator_text operator"]
    by (cases operator) simp_all
qed (simp_all add: path_tight)

lemma no_arithmetic:
  "printable_plan plan \<Longrightarrow> \<not> is_sum plan \<Longrightarrow> split_top_level_arithmetic uc (plan_text plan) = None"
  using split_arithmetic_run [of 0 "plan_text plan" uc "[]" "[]" False] plan_run [of plan]
  by (simp add: split_top_level_arithmetic_def)

lemma arithmetic_split:
  assumes "printable_plan lhs" "\<not> is_sum lhs" "printable_plan rhs"
  shows "split_top_level_arithmetic uc (plan_text lhs @ operator_text operator @ plan_text rhs)
    = Some (plan_text lhs, operator, plan_text rhs)"
proof -
  note t = plan_tight [OF assms(1)] plan_tight [OF assms(3)]
  have "plan_text lhs \<noteq> []" "plan_text rhs \<noteq> []" using t by (simp_all add: tight_def)
  then show ?thesis
    using split_arithmetic_run [of 0 "plan_text lhs" uc "[]" "operator_text operator @ plan_text rhs" False]
      plan_run [OF assms(1)] assms(2) t
    by (cases operator) (simp_all add: split_top_level_arithmetic_def)
qed

lemma comma_pair:
  assumes "nested_run [CHR '',''] 0 a" "nested_run [CHR '',''] 0 b"
  shows "split_top_level_comma_pair (a @ '', '' @ b) = Some (a, CHR '' '' # b)"
  using split_comma_run [OF assms(1), of "[]" "'', '' @ b" False None]
    split_comma_run [OF assms(2), of "a @ '', ''" "[]" False "Some (a, CHR '' '' # b)"]
  by (simp add: split_top_level_comma_pair_def)

lemma function_argument_text:
  "function_arguments f (f @ inner @ '')'') = Some inner"
  by (simp add: function_arguments_def strip_prefix_def starts_with_def strip_suffix_def)

lemma no_function: "hd s \<noteq> hd f \<Longrightarrow> f \<noteq> [] \<Longrightarrow> function_arguments f s = None"
  by (cases f; cases s) (auto simp: function_arguments_def strip_prefix_def starts_with_def)

lemma path_not_function: "value_path_ok p \<Longrightarrow> CHR ''('' \<in> set f \<Longrightarrow> \<not> starts_with p f"
proof
  assume "value_path_ok p" "CHR ''('' \<in> set f" "starts_with p f"
  moreover from this(3) have "set f \<subseteq> set p" by (metis set_take_subset starts_with_def)
  ultimately show False using name_char_plain by (auto simp: value_path_ok_def list_all_iff)
qed

lemma path_no_function: "value_path_ok p \<Longrightarrow> CHR ''('' \<in> set f \<Longrightarrow> function_arguments f p = None"
  by (simp add: function_arguments_def strip_prefix_def path_not_function)

lemma path_is_document: "value_path_ok p \<Longrightarrow> is_document_path_expression uc p"
  using path_tight [of p] path_not_function [of p]
  by (cases p) (auto simp: is_document_path_expression_def value_path_ok_def Let_def)

lemma path_resolves: "value_path_ok p \<Longrightarrow> resolve_document_path p names = Inr p"
proof -
  assume "value_path_ok p"
  then have "CHR ''#'' \<notin> set p" by (auto simp: value_path_ok_def list_all_iff name_char_def is_ascii_letter_def is_ascii_digit_def)
  then show ?thesis by (simp add: resolve_document_path_def)
qed

text \<open>
  C15: Resolving the text of a value gives the value: for every plan built from placeholders, document
  paths, \<open>if_not_exists\<close>, \<open>list_append\<close> and the operators \<open>+\<close> and \<open>-\<close>, nested to any depth, in which the left
  side of an operator is not itself a sum. A chain of operators is therefore read from the right:
  \<open>a - b - c\<close> is the text of \<open>a - (b - c)\<close>.
\<close>

theorem value_round_trip:
  assumes "printable_plan plan"
  shows "ebind (resolve_attribute_value_plan env names (plan_text plan)) into_ok_plan = Inr plan"
  using assms
proof (induction plan)
  case (PPlaceholder name)
  then show ?case using no_arithmetic [of "PPlaceholder name" "ue_uc env"]
    by (subst resolve_attribute_value_plan.simps) (auto simp: starts_with_def into_ok_plan_def)
next
  case (PPath path)
  have "hd path \<noteq> CHR '':''" using PPath by (auto simp: value_path_ok_def is_ascii_letter_def)
  then have "\<not> starts_with path '':''" using PPath by (cases path) (auto simp: starts_with_def value_path_ok_def)
  then show ?case using PPath no_arithmetic [of "PPath path" "ue_uc env"] path_tight [of path]
    by (subst resolve_attribute_value_plan.simps)
      (simp add: path_no_function path_is_document path_resolves into_ok_plan_def)
next
  case (PIfNotExists path operand)
  let ?inner = "path @ '', '' @ plan_text operand"
  have "split_top_level_comma_pair ?inner = Some (path, CHR '' '' # plan_text operand)"
    using PIfNotExists.prems plan_run [of operand] name_run [of path "'',''"] by (intro comma_pair) (auto simp: value_path_ok_def)
  moreover have "function_arguments ''if_not_exists('' (plan_text (PIfNotExists path operand)) = Some ?inner"
    using function_argument_text [of "''if_not_exists(''" ?inner] by simp
  ultimately show ?case
    using PIfNotExists no_arithmetic [of "PIfNotExists path operand" "ue_uc env"] path_tight [of path] plan_tight [of operand]
    by (subst resolve_attribute_value_plan.simps)
      (auto simp: starts_with_def path_resolves result_simps into_ok_plan_def)
next
  case (PListAppend operand1 operand2)
  let ?inner = "plan_text operand1 @ '', '' @ plan_text operand2"
  have "split_top_level_comma_pair ?inner = Some (plan_text operand1, CHR '' '' # plan_text operand2)"
    using PListAppend.prems plan_run by (intro comma_pair) auto
  moreover have "function_arguments ''list_append('' (plan_text (PListAppend operand1 operand2)) = Some ?inner"
    using function_argument_text [of "''list_append(''" ?inner] by simp
  ultimately show ?case
    using PListAppend no_arithmetic [of "PListAppend operand1 operand2" "ue_uc env"] plan_tight [of operand1] plan_tight [of operand2]
    by (subst resolve_attribute_value_plan.simps)
      (auto simp: starts_with_def no_function result_simps into_ok_plan_def)
next
  case (PArithmetic lhs operator rhs)
  then show ?case using arithmetic_split [of lhs rhs "ue_uc env" operator]
    by (subst resolve_attribute_value_plan.simps) (auto simp: result_simps into_ok_plan_def)
qed simp

theorem value_round_trip_witness:
  "ebind (resolve_attribute_value_plan plain_env None ''a - b - if_not_exists(c, :d)'') into_ok_plan
    = Inr (PArithmetic (PPath ''a'') OpSubtract (PArithmetic (PPath ''b'') OpSubtract (PIfNotExists ''c'' (PPlaceholder '':d''))))"
  using value_round_trip [of "PArithmetic (PPath ''a'') OpSubtract
      (PArithmetic (PPath ''b'') OpSubtract (PIfNotExists ''c'' (PPlaceholder '':d'')))" plain_env None]
  by (simp add: value_path_ok_def name_char_def is_ascii_letter_def)

text \<open>
  A quote inside a string literal ends the string for the search of an operator, also after a backslash:
  the plus sign inside the literal splits the expression.
\<close>

lemma escaped_quote_ends_string:
  "split_top_level_arithmetic (ue_uc plain_env) ([dquote, CHR ''a'', CHR 0x5C, dquote] @ '' + b'' @ [dquote])
    = Some ([dquote, CHR ''a'', CHR 0x5C, dquote], OpAdd, ''b'' @ [dquote])"
  by code_simp

end
