(* ===== verification/Update_Cache.thy ===== *)
theory Update_Cache
  imports Update_Printing "HOL-Library.Product_Lexorder"
begin

text \<open>
  The caches of parsed expressions (\<open>update_logic/logic.rs\<close>): what a cache that is shared by requests
  promises, as the locale \<open>answer_cache\<close>, and the cache of update plans as an instance of it.
\<close>

section \<open>Caches of parsed expressions\<close>

text \<open>
  A cache maps the text of an expression to the results stored for it, each with the part of the request
  it was computed from. A request \<open>q\<close> takes the first result whose key it matches. When the lock of the
  cache is poisoned, neither the read nor the write guard is granted and the cache is passed over.
\<close>

type_synonym ('k, 'v) expression_cache = "string \<Rightarrow> ('k \<times> 'v) list"

definition cache_read :: "bool \<Rightarrow> ('q \<Rightarrow> 'k \<Rightarrow> bool) \<Rightarrow> 'q \<Rightarrow> ('k \<times> 'v) list \<Rightarrow> 'v option" where
  "cache_read poisoned matches q entries =
     (if poisoned then None else map_option snd (find (\<lambda>(k, v). matches q k) entries))"

text \<open>Under the write lock the lookup is repeated, and the result is pushed when it is still missing.\<close>

definition cache_write :: "bool \<Rightarrow> ('q \<Rightarrow> 'k \<Rightarrow> bool) \<Rightarrow> (string \<Rightarrow> 'q \<Rightarrow> 'k) \<Rightarrow> string \<Rightarrow> 'q \<Rightarrow> 'v \<Rightarrow> ('k, 'v) expression_cache
    \<Rightarrow> 'v \<times> ('k, 'v) expression_cache" where
  "cache_write poisoned matches key expression q v cache =
     (if poisoned then (v, cache)
      else case cache_read poisoned matches q (cache expression) of
        Some cached \<Rightarrow> (cached, cache)
      | None \<Rightarrow> (v, cache(expression := cache expression @ [(key expression q, v)])))"

definition cached_answer :: "bool \<Rightarrow> ('q \<Rightarrow> 'k \<Rightarrow> bool) \<Rightarrow> (string \<Rightarrow> 'q \<Rightarrow> 'k) \<Rightarrow> (string \<Rightarrow> 'q \<Rightarrow> 'e + 'v) \<Rightarrow> string \<Rightarrow> 'q
    \<Rightarrow> ('k, 'v) expression_cache \<Rightarrow> ('e + 'v) \<times> ('k, 'v) expression_cache" where
  "cached_answer poisoned matches key compute expression q cache =
     (case cache_read poisoned matches q (cache expression) of
        Some cached \<Rightarrow> (Inr cached, cache)
      | None \<Rightarrow>
          (case compute expression q of
             Inl e \<Rightarrow> (Inl e, cache)
           | Inr v \<Rightarrow> let (v, cache) = cache_write poisoned matches key expression q v cache in (Inr v, cache)))"

text \<open>
  Requests that run at the same time: each reads the cache under the read lock, computes without a lock,
  and writes under the write lock. \<open>cs_poisoned\<close> says whether the lock was poisoned before; nothing that
  runs under a lock here panics, so the requests leave it as it is.
\<close>

datatype ('q, 'v, 'e) asker =
    Asking string 'q
  | Computed string 'q 'v
  | Answered string 'q "'e + 'v"

record ('q, 'k, 'v, 'e) cache_system =
  cs_poisoned :: bool
  cs_cache :: "('k, 'v) expression_cache"
  cs_askers :: "('q, 'v, 'e) asker list"

inductive cache_step :: "('q \<Rightarrow> 'k \<Rightarrow> bool) \<Rightarrow> (string \<Rightarrow> 'q \<Rightarrow> 'k) \<Rightarrow> (string \<Rightarrow> 'q \<Rightarrow> 'e + 'v)
    \<Rightarrow> ('q, 'k, 'v, 'e) cache_system \<Rightarrow> ('q, 'k, 'v, 'e) cache_system \<Rightarrow> bool"
  for matches :: "'q \<Rightarrow> 'k \<Rightarrow> bool" and key :: "string \<Rightarrow> 'q \<Rightarrow> 'k" and compute :: "string \<Rightarrow> 'q \<Rightarrow> 'e + 'v" where
  read_hit: "i < length (cs_askers s) \<Longrightarrow> cs_askers s ! i = Asking expression q \<Longrightarrow>
    cache_read (cs_poisoned s) matches q (cs_cache s expression) = Some v \<Longrightarrow>
    cache_step matches key compute s (s\<lparr>cs_askers := (cs_askers s)[i := Answered expression q (Inr v)]\<rparr>)"
| compute_error: "i < length (cs_askers s) \<Longrightarrow> cs_askers s ! i = Asking expression q \<Longrightarrow>
    cache_read (cs_poisoned s) matches q (cs_cache s expression) = None \<Longrightarrow> compute expression q = Inl e \<Longrightarrow>
    cache_step matches key compute s (s\<lparr>cs_askers := (cs_askers s)[i := Answered expression q (Inl e)]\<rparr>)"
| compute_ok: "i < length (cs_askers s) \<Longrightarrow> cs_askers s ! i = Asking expression q \<Longrightarrow>
    cache_read (cs_poisoned s) matches q (cs_cache s expression) = None \<Longrightarrow> compute expression q = Inr v \<Longrightarrow>
    cache_step matches key compute s (s\<lparr>cs_askers := (cs_askers s)[i := Computed expression q v]\<rparr>)"
| write_back: "i < length (cs_askers s) \<Longrightarrow> cs_askers s ! i = Computed expression q v \<Longrightarrow>
    cache_write (cs_poisoned s) matches key expression q v (cs_cache s) = (v', cache') \<Longrightarrow>
    cache_step matches key compute s
      (s\<lparr>cs_cache := cache', cs_askers := (cs_askers s)[i := Answered expression q (Inr v')]\<rparr>)"

inductive_cases cache_stepE: "cache_step matches key compute s t"

fun steps_left :: "('q, 'v, 'e) asker \<Rightarrow> nat" where
  "steps_left (Asking e q) = 2"
| "steps_left (Computed e q v) = 1"
| "steps_left (Answered e q r) = 0"

definition system_left :: "('q, 'k, 'v, 'e) cache_system \<Rightarrow> nat" where
  "system_left s = sum_list (map steps_left (cs_askers s))"

text \<open>A run of \<open>n\<close> steps.\<close>

inductive cache_run :: "('q \<Rightarrow> 'k \<Rightarrow> bool) \<Rightarrow> (string \<Rightarrow> 'q \<Rightarrow> 'k) \<Rightarrow> (string \<Rightarrow> 'q \<Rightarrow> 'e + 'v)
    \<Rightarrow> ('q, 'k, 'v, 'e) cache_system \<Rightarrow> nat \<Rightarrow> ('q, 'k, 'v, 'e) cache_system \<Rightarrow> bool"
  for matches key compute where
  run_start: "cache_run matches key compute s 0 s"
| run_step: "cache_run matches key compute s n t \<Longrightarrow> cache_step matches key compute t u \<Longrightarrow>
    cache_run matches key compute s (Suc n) u"

section \<open>What a cache promises\<close>

lemma sum_list_update_less:
  "i < length xs \<Longrightarrow> f y < f (xs ! i) \<Longrightarrow> sum_list (map f (xs[i := y])) < sum_list (map f xs)" for f :: "'a \<Rightarrow> nat"
proof (induction xs arbitrary: i)
  case (Cons x xs)
  then show ?case by (cases i) auto
qed simp

lemma step_left: "cache_step matches key compute s t \<Longrightarrow> system_left t < system_left s"
  by (erule cache_stepE) (auto simp: system_left_def intro!: sum_list_update_less)

lemma run_bounded: "cache_run matches key compute s n t \<Longrightarrow> n + system_left t \<le> system_left s"
  by (induction rule: cache_run.induct) (auto dest: step_left)

lemma step_enabled:
  assumes "a \<in> set (cs_askers s)" "steps_left a \<noteq> 0"
  shows "\<exists>t. cache_step matches key compute s t"
proof -
  obtain i where i: "i < length (cs_askers s)" "cs_askers s ! i = a" using assms(1) by (auto simp: in_set_conv_nth)
  show ?thesis
  proof (cases a)
    case (Asking e q)
    then show ?thesis using i cache_step.intros(1-3) [of i s e q]
      by (cases "cache_read (cs_poisoned s) matches q (cs_cache s e)"; cases "compute e q") metis+
  next
    case (Computed e q v)
    then show ?thesis using i cache_step.write_back [of i s e q v]
      by (cases "cache_write (cs_poisoned s) matches key e q v (cs_cache s)") metis
  qed (use assms(2) in simp)
qed

text \<open>What the entries of a cache and the requests in flight stand for.\<close>

definition entries_ok :: "(string \<Rightarrow> 'q \<Rightarrow> 'k) \<Rightarrow> (string \<Rightarrow> 'q \<Rightarrow> 'e + 'v) \<Rightarrow> ('q \<Rightarrow> bool) \<Rightarrow> ('k, 'v) expression_cache \<Rightarrow> bool" where
  "entries_ok key compute valid cache \<longleftrightarrow>
     (\<forall>expression k v. (k, v) \<in> set (cache expression) \<longrightarrow>
       (\<exists>q. valid q \<and> k = key expression q \<and> compute expression q = Inr v))"

fun asker_ok :: "(string \<Rightarrow> 'q \<Rightarrow> 'e + 'v) \<Rightarrow> ('q, 'v, 'e) asker \<Rightarrow> bool" where
  "asker_ok compute (Asking expression q) \<longleftrightarrow> True"
| "asker_ok compute (Computed expression q v) \<longleftrightarrow> compute expression q = Inr v"
| "asker_ok compute (Answered expression q r) \<longleftrightarrow> r = compute expression q"

fun asker_question :: "('q, 'v, 'e) asker \<Rightarrow> string \<times> 'q" where
  "asker_question (Asking expression q) = (expression, q)"
| "asker_question (Computed expression q v) = (expression, q)"
| "asker_question (Answered expression q r) = (expression, q)"

definition system_ok :: "(string \<Rightarrow> 'q \<Rightarrow> 'k) \<Rightarrow> (string \<Rightarrow> 'q \<Rightarrow> 'e + 'v) \<Rightarrow> ('q \<Rightarrow> bool) \<Rightarrow> ('q, 'k, 'v, 'e) cache_system \<Rightarrow> bool" where
  "system_ok key compute valid s \<longleftrightarrow> entries_ok key compute valid (cs_cache s)
     \<and> list_all (\<lambda>a. asker_ok compute a \<and> valid (snd (asker_question a))) (cs_askers s)"

definition fresh_system :: "bool \<Rightarrow> (string \<times> 'q) list \<Rightarrow> ('q, 'k, 'v, 'e) cache_system" where
  "fresh_system poisoned questions =
     \<lparr>cs_poisoned = poisoned, cs_cache = (\<lambda>_. []), cs_askers = map (\<lambda>(expression, q). Asking expression q) questions\<rparr>"

locale answer_cache =
  fixes matches :: "'q \<Rightarrow> 'k \<Rightarrow> bool"
    and key :: "string \<Rightarrow> 'q \<Rightarrow> 'k"
    and compute :: "string \<Rightarrow> 'q \<Rightarrow> 'e + 'v"
    and valid :: "'q \<Rightarrow> bool"
  assumes sound: "valid q \<Longrightarrow> valid q' \<Longrightarrow> matches q (key expression q') \<Longrightarrow> compute expression q' = Inr v \<Longrightarrow>
      compute expression q = Inr v"
    and self: "valid q \<Longrightarrow> matches q (key expression q)"
begin

lemma read_sound:
  assumes "entries_ok key compute valid cache" "valid q" "cache_read poisoned matches q (cache expression) = Some v"
  shows "compute expression q = Inr v"
proof -
  obtain k where "(k, v) \<in> set (cache expression)" "matches q k"
    using assms(3) by (auto simp: cache_read_def find_Some_iff in_set_conv_nth split: if_splits) metis
  with assms(1,2) sound show ?thesis unfolding entries_ok_def by metis
qed

lemma write_sound:
  assumes "entries_ok key compute valid cache" "valid q" "compute expression q = Inr v"
    and "cache_write poisoned matches key expression q v cache = (v', cache')"
  shows "compute expression q = Inr v' \<and> entries_ok key compute valid cache'"
proof (cases "cache_read poisoned matches q (cache expression)")
  case None
  have e: "v' = v" "(k, w) \<in> set (cache' other) \<Longrightarrow> (k, w) \<in> set (cache other) \<or> other = expression \<and> k = key expression q \<and> w = v"
    for k w other using None assms(4) by (auto simp: cache_write_def split: if_splits)
  have "entries_ok key compute valid cache'"
    unfolding entries_ok_def
  proof (intro allI impI)
    fix other k w assume "(k, w) \<in> set (cache' other)"
    then consider "(k, w) \<in> set (cache other)" | "other = expression" "k = key expression q" "w = v"
      using e(2) by blast
    then show "\<exists>q. valid q \<and> k = key other q \<and> compute other q = Inr w"
      using assms(1-3) unfolding entries_ok_def by cases blast+
  qed
  then show ?thesis using assms(3) e(1) by simp
next
  case (Some w)
  then have "\<not> poisoned" by (auto simp: cache_read_def)
  then have "v' = w" "cache' = cache" using Some assms(4) by (simp_all add: cache_write_def)
  then show ?thesis using assms(1) read_sound [OF assms(1,2) Some] by simp
qed

lemma cached_answer_sound:
  assumes "entries_ok key compute valid cache" "valid q"
  shows "fst (cached_answer poisoned matches key compute expression q cache) = compute expression q
    \<and> entries_ok key compute valid (snd (cached_answer poisoned matches key compute expression q cache))"
proof (cases "cache_read poisoned matches q (cache expression)")
  case None
  show ?thesis
  proof (cases "compute expression q")
    case (Inr v)
    obtain v' cache' where w: "cache_write poisoned matches key expression q v cache = (v', cache')" by fastforce
    then show ?thesis using None Inr write_sound [OF assms Inr w] by (simp add: cached_answer_def)
  qed (use None assms(1) in \<open>simp add: cached_answer_def\<close>)
next
  case (Some v)
  then show ?thesis using assms(1) read_sound [OF assms Some] by (simp add: cached_answer_def)
qed

lemma write_then_hit:
  assumes "valid q" "cache_write False matches key expression q v cache = (v', cache')"
  shows "cache_read False matches q (cache' expression) = Some v'"
proof -
  have app: "find P (xs @ [x]) = (case find P xs of Some y \<Rightarrow> Some y | None \<Rightarrow> if P x then Some x else None)" for P and x :: 'z and xs
    by (induction xs) auto
  show ?thesis using assms self [OF assms(1), of expression]
    by (cases "cache_read False matches q (cache expression)") (auto simp: cache_write_def cache_read_def app)
qed

lemma list_all_update: "list_all P xs \<Longrightarrow> P y \<Longrightarrow> list_all P (xs[i := y])"
  by (auto simp: list_all_iff dest: set_update_subset_insert [THEN subsetD])

lemma step_keeps_system:
  assumes "cache_step matches key compute s t" "system_ok key compute valid s"
  shows "system_ok key compute valid t"
proof -
  have a: "asker_ok compute (cs_askers s ! i)" "valid (snd (asker_question (cs_askers s ! i)))"
    if "i < length (cs_askers s)" for i
    using assms(2) that by (simp_all add: system_ok_def list_all_length)
  have c: "entries_ok key compute valid (cs_cache s)" using assms(2) by (simp add: system_ok_def)
  from assms(1) show ?thesis
  proof cases
    case (read_hit i expression q v)
    then show ?thesis using assms(2) a [of i] read_sound [OF c, of q "cs_poisoned s" expression v]
      by (auto simp: system_ok_def intro!: list_all_update)
  next
    case (write_back i expression q v v' cache')
    then show ?thesis using assms(2) a [of i] write_sound [OF c, of q expression v "cs_poisoned s" v' cache']
      by (auto simp: system_ok_def intro!: list_all_update)
  next
    case (compute_error i expression q e)
    then show ?thesis using assms(2) a [of i] by (auto simp: system_ok_def intro!: list_all_update)
  next
    case (compute_ok i expression q v)
    then show ?thesis using assms(2) a [of i] by (auto simp: system_ok_def intro!: list_all_update)
  qed
qed

lemma map_update_same: "i < length xs \<Longrightarrow> f y = f (xs ! i) \<Longrightarrow> map f (xs[i := y]) = map f xs"
  by (simp add: map_update) (metis length_map list_update_id nth_map)

lemma step_questions: "cache_step matches key compute s t \<Longrightarrow> map asker_question (cs_askers t) = map asker_question (cs_askers s)"
  by (erule cache_stepE) (auto intro!: map_update_same)

lemma run_keeps_system:
  "cache_run matches key compute s n t \<Longrightarrow> system_ok key compute valid s \<Longrightarrow>
    system_ok key compute valid t \<and> map asker_question (cs_askers t) = map asker_question (cs_askers s)"
  by (induction rule: cache_run.induct) (auto dest: step_keeps_system step_questions)

lemma stuck_answered:
  assumes "system_ok key compute valid s" "\<not> (\<exists>t. cache_step matches key compute s t)"
  shows "cs_askers s = map (\<lambda>(expression, q). Answered expression q (compute expression q)) (map asker_question (cs_askers s))"
proof -
  have "a = (\<lambda>(expression, q). Answered expression q (compute expression q)) (asker_question a)" if a: "a \<in> set (cs_askers s)" for a
  proof -
    have "asker_ok compute a" using assms(1) a by (simp add: system_ok_def list_all_iff)
    moreover have "steps_left a = 0" using assms(2) step_enabled [OF a] by blast
    ultimately show ?thesis by (cases a) auto
  qed
  then show ?thesis by (simp add: map_idI o_def)
qed

lemma fresh_run:
  assumes "list_all (\<lambda>(expression, q). valid q) questions" "cache_run matches key compute (fresh_system poisoned questions) n t"
  shows "n \<le> 2 * length questions \<and> list_all (asker_ok compute) (cs_askers t)
    \<and> ((\<exists>u. cache_step matches key compute t u)
       \<or> cs_askers t = map (\<lambda>(expression, q). Answered expression q (compute expression q)) questions)"
proof -
  let ?s = "fresh_system poisoned questions :: ('q, 'k, 'v, 'e) cache_system"
  have s: "system_ok key compute valid ?s" "map asker_question (cs_askers ?s) = questions"
    using assms(1) by (auto simp: system_ok_def entries_ok_def fresh_system_def list_all_iff o_def split_beta)
  have "system_left ?s = 2 * length questions"
    by (simp add: system_left_def fresh_system_def o_def split_beta sum_list_triv)
  then have "n \<le> 2 * length questions" using run_bounded [OF assms(2)] by simp
  moreover have t: "system_ok key compute valid t" "map asker_question (cs_askers t) = questions"
    using run_keeps_system [OF assms(2) s(1)] s(2) by simp_all
  ultimately show ?thesis using stuck_answered [OF t(1)] t by (auto simp: system_ok_def list_all_iff)
qed

end

section \<open>The cache of update plans\<close>

definition attribute_names_match :: "names option \<Rightarrow> (string \<times> string) list \<Rightarrow> bool" where
  "attribute_names_match expression_attribute_names cached_names =
     (case expression_attribute_names of
        None \<Rightarrow> cached_names = []
      | Some names \<Rightarrow>
          length names = length cached_names \<and> list_all (\<lambda>(key, value). vec_map_get names key = Some value) cached_names)"

definition sorted_attribute_names :: "names option \<Rightarrow> (string \<times> string) list" where
  "sorted_attribute_names expression_attribute_names =
     sort (case expression_attribute_names of None \<Rightarrow> [] | Some names \<Rightarrow> names)"

type_synonym plan_cache = "((string \<times> string) list, update_operation_plan list) expression_cache"

definition cached_update_expression_plan :: "bool \<Rightarrow> update_env \<Rightarrow> string \<Rightarrow> names option \<Rightarrow> plan_cache
    \<Rightarrow> (update_error + update_operation_plan list) \<times> plan_cache" where
  "cached_update_expression_plan poisoned env =
     cached_answer poisoned attribute_names_match (\<lambda>_. sorted_attribute_names)
       (\<lambda>expression names. parse_update_expression_plan env names expression)"

definition parse_update_expression :: "bool \<Rightarrow> update_env \<Rightarrow> string \<Rightarrow> names option \<Rightarrow> attribute_map option \<Rightarrow> plan_cache
    \<Rightarrow> (update_error + update_operation list) \<times> plan_cache" where
  "parse_update_expression poisoned env update_expression names vals cache =
     (let (plan, cache) = cached_update_expression_plan poisoned env update_expression names cache in
      (ebind plan (\<lambda>plan. bind_update_expression_plan plan vals), cache))"

text \<open>The names of a request are distinct.\<close>

definition names_ok :: "names option \<Rightarrow> bool" where
  "names_ok names \<longleftrightarrow> (case names of None \<Rightarrow> True | Some names \<Rightarrow> keys_distinct names)"

definition name_lookup :: "names option \<Rightarrow> string \<Rightarrow> string option" where
  "name_lookup names k = Option.bind names (\<lambda>names. vec_map_get names k)"

lemma sorted_names_distinct: "names_ok names \<Longrightarrow> keys_distinct (sorted_attribute_names names)"
  by (cases names) (auto simp: names_ok_def sorted_attribute_names_def distinct_map inj_on_def)

lemma sorted_names_lookup: "names_ok names \<Longrightarrow> vec_map_get (sorted_attribute_names names) k = name_lookup names k"
proof (cases names)
  case (Some ns)
  assume "names_ok names"
  then have "map_of (sort ns) = map_of ns"
    using Some map_of_inject_set [of "sort ns" ns] by (simp add: names_ok_def distinct_map inj_on_def)
  then show ?thesis using Some by (simp add: sorted_attribute_names_def name_lookup_def vec_map_get_map_of)
qed (simp add: sorted_attribute_names_def name_lookup_def)

lemma names_match_iff:
  assumes "names_ok names" "names_ok names'"
  shows "attribute_names_match names (sorted_attribute_names names') \<longleftrightarrow> name_lookup names = name_lookup names'"
proof -
  let ?ns = "case names of None \<Rightarrow> [] | Some ns \<Rightarrow> ns"
  have "attribute_names_match names (sorted_attribute_names names') \<longleftrightarrow> vec_map_eq (sorted_attribute_names names') ?ns"
    by (cases names) (auto simp: attribute_names_match_def vec_map_eq_def)
  also have "\<dots> \<longleftrightarrow> (\<forall>k. vec_map_get (sorted_attribute_names names') k = vec_map_get ?ns k)"
    using sorted_names_distinct [OF assms(2)] assms(1) by (intro vec_map_eq_iff) (auto simp: names_ok_def split: option.splits)
  also have "\<dots> \<longleftrightarrow> name_lookup names = name_lookup names'"
    unfolding sorted_names_lookup [OF assms(2)] by (cases names) (auto simp: name_lookup_def fun_eq_iff)
  finally show ?thesis .
qed

text \<open>Planning depends on the names of the request only through their lookup.\<close>

lemma aliases_lookup:
  "vec_map_get ns = vec_map_get ns' \<Longrightarrow> resolve_path_aliases ns path acc = resolve_path_aliases ns' path acc"
  by (induction ns path acc rule: resolve_path_aliases.induct) (auto simp: Let_def split: option.splits)

lemma document_path_lookup:
  assumes "name_lookup names = name_lookup names'" "resolve_document_path path names = Inr p"
  shows "resolve_document_path path names' = Inr p"
proof -
  have empty: "vec_map_get ns = (\<lambda>_. None) \<Longrightarrow> ns = []" for ns :: names
    by (cases ns) (auto simp: fun_eq_iff split: if_splits)
  have miss: "CHR ''#'' \<in> set path \<Longrightarrow> resolve_path_aliases [] path acc \<noteq> Inr p" for acc
    by (induction "[] :: names" path acc rule: resolve_path_aliases.induct) (auto simp: Let_def)
  show ?thesis
  proof (cases "CHR ''#'' \<in> set path")
    case True
    then obtain ns where ns: "names = Some ns" "resolve_path_aliases ns path [] = Inr p"
      using assms(2) by (cases names) (auto simp: resolve_document_path_def)
    show ?thesis
    proof (cases names')
      case None
      then have "ns = []" using assms(1) ns(1) empty [of ns] by (simp add: name_lookup_def fun_eq_iff)
      then show ?thesis using miss [OF True] ns(2) by simp
    next
      case (Some ns')
      then have "vec_map_get ns = vec_map_get ns'" using assms(1) ns(1) by (simp add: name_lookup_def fun_eq_iff)
      then show ?thesis using aliases_lookup [of ns ns' path] True Some ns(2) by (simp add: resolve_document_path_def)
    qed
  qed (use assms(2) in \<open>simp add: resolve_document_path_def\<close>)
qed

lemma value_plan_lookup:
  "resolve_attribute_value_plan env names s = Inr r \<Longrightarrow> name_lookup names = name_lookup names' \<Longrightarrow>
    resolve_attribute_value_plan env names' s = Inr r"
proof (induction env names s arbitrary: r rule: resolve_attribute_value_plan.induct)
  case (1 env names s)
  note step = resolve_attribute_value_plan.simps [of env _ s]
  note path = document_path_lookup [OF "1.prems"(2)]
  show ?case
  proof (cases "split_top_level_arithmetic (ue_uc env) s")
    case (Some x)
    obtain lhs operator rhs where x: "x = (lhs, operator, rhs)" by (cases x)
    note ih = "1.IH"(4) [OF Some x [symmetric] refl _ "1.prems"(2)] "1.IH"(5) [OF Some x [symmetric] refl _ _ "1.prems"(2)]
    show ?thesis using "1.prems"(1) ih unfolding step Some x by (auto simp: result_simps)
  next
    case None
    note none = None
    show ?thesis
    proof (cases "starts_with s '':''")
      case True
      then show ?thesis using "1.prems"(1) none unfolding step by simp
    next
      case False
      note colon = False
      show ?thesis
      proof (cases "function_arguments ''if_not_exists('' s")
        case (Some inner)
        note ih = "1.IH"(3) [OF none colon Some _ refl _ _ "1.prems"(2)]
        show ?thesis using "1.prems"(1) ih path unfolding step none using colon Some
          by (auto simp: result_simps split: option.splits)
      next
        case None
        note if_none = None
        show ?thesis
        proof (cases "function_arguments ''list_append('' s")
          case (Some inner)
          note ih = "1.IH"(1) [OF none colon if_none Some _ refl _ "1.prems"(2)]
            "1.IH"(2) [OF none colon if_none Some _ refl _ _ _ "1.prems"(2)]
          show ?thesis using "1.prems"(1) ih unfolding step none using colon if_none Some
            by (auto simp: result_simps split: option.splits)
        next
          case None
          then show ?thesis using "1.prems"(1) path unfolding step none using colon if_none
            by (auto simp: result_simps split: option.splits if_splits)
        qed
      qed
    qed
  qed
qed

lemma plan_lookups:
  assumes l: "name_lookup names = name_lookup names'"
  shows "set_operation_plan env names f v = Inr p \<Longrightarrow> set_operation_plan env names' f v = Inr p"
    "pair_operation_plan env names kind c s = Inr p \<Longrightarrow> pair_operation_plan env names' kind c s = Inr p"
    "remove_operation_plan env names s = Inr p \<Longrightarrow> remove_operation_plan env names' s = Inr p"
  by (auto simp: set_operation_plan_def pair_operation_plan_def remove_operation_plan_def resolve_attribute_name_def
    result_simps dest!: document_path_lookup [OF l] value_plan_lookup [OF _ l] split: option.splits)

lemma part_plan_lookup:
  assumes "plan_part env names first part = Inr p" "name_lookup names = name_lookup names'"
  shows "plan_part env names' first part = Inr p"
proof -
  note l = plan_lookups [OF assms(2)]
  have c: "continuation_plan env names part = Inr p \<Longrightarrow> continuation_plan env names' part = Inr p"
    unfolding continuation_plan_def
    by (cases "split_assignment (ue_uc env) part") (simp_all add: l split_beta split: if_splits)
  have ne: "part \<noteq> ''SET''" using assms(1) by (auto simp: plan_part_def)
  show ?thesis
  proof (cases "strip_prefix ''SET '' part")
    case (Some set_part)
    then show ?thesis using assms(1) ne l(1)
      by (cases "split_assignment (ue_uc env) (trim (ue_uc env) set_part)") (auto simp: plan_part_def)
  next
    case None
    then show ?thesis using assms(1) ne l c
      by (cases "strip_prefix ''ADD '' part"; cases "strip_prefix ''REMOVE '' part"; cases "strip_prefix ''DELETE '' part")
        (simp_all add: plan_part_def split: if_splits)
  qed
qed

lemma parts_plan_lookup:
  assumes "name_lookup names = name_lookup names'"
  shows "plan_parts env names parts ops = Inr ps \<Longrightarrow> plan_parts env names' parts ops = Inr ps"
proof (induction parts arbitrary: ops)
  case (Cons part parts)
  then obtain op where op: "plan_part env names (ops = []) part = Inr op" "plan_parts env names parts (ops @ [op]) = Inr ps"
    by (auto simp: result_simps)
  from part_plan_lookup [OF op(1) assms] Cons.IH [OF op(2)] show ?case by (simp add: result_simps)
qed simp

lemma expression_plan_lookup:
  "parse_update_expression_plan env names e = Inr ps \<Longrightarrow> name_lookup names = name_lookup names' \<Longrightarrow>
    parse_update_expression_plan env names' e = Inr ps"
  unfolding parse_update_expression_plan_def Let_def using parts_plan_lookup .

interpretation plans: answer_cache attribute_names_match "\<lambda>_. sorted_attribute_names"
  "\<lambda>expression names. parse_update_expression_plan env names expression" names_ok for env
proof unfold_locales
  fix q q' :: "names option" and expression v
  assume "names_ok q" "names_ok q'" "attribute_names_match q (sorted_attribute_names q')"
    "parse_update_expression_plan env q' expression = Inr v"
  then show "parse_update_expression_plan env q expression = Inr v"
    using names_match_iff [of q q'] expression_plan_lookup [of env q' expression v q] by simp
next
  fix q :: "names option"
  assume "names_ok q"
  then show "attribute_names_match q (sorted_attribute_names q)" by (simp add: names_match_iff)
qed

text \<open>
  What the stored plans stand for: each is the plan of its expression for a request with distinct names.
\<close>

definition plan_cache_ok :: "update_env \<Rightarrow> plan_cache \<Rightarrow> bool" where
  "plan_cache_ok env = entries_ok (\<lambda>_. sorted_attribute_names) (\<lambda>expression names. parse_update_expression_plan env names expression) names_ok"

lemma cached_plan_sound:
  assumes "plan_cache_ok env cache" "names_ok names"
  shows "fst (cached_update_expression_plan poisoned env expression names cache) = parse_update_expression_plan env names expression
    \<and> plan_cache_ok env (snd (cached_update_expression_plan poisoned env expression names cache))"
  using plans.cached_answer_sound [of env cache names poisoned expression] assms
  unfolding cached_update_expression_plan_def plan_cache_ok_def by simp

lemma empty_plan_cache: "plan_cache_ok env (\<lambda>_. [])"
  by (simp add: plan_cache_ok_def entries_ok_def)

fun parse_requests :: "bool \<Rightarrow> update_env \<Rightarrow> (string \<times> names option \<times> attribute_map option) list \<Rightarrow> plan_cache
    \<Rightarrow> (update_error + update_operation list) list" where
  "parse_requests poisoned env [] cache = []"
| "parse_requests poisoned env ((expression, names, vals) # requests) cache =
     (let (r, cache) = parse_update_expression poisoned env expression names vals cache in r # parse_requests poisoned env requests cache)"

lemma requests_transparent:
  "plan_cache_ok env cache \<Longrightarrow> list_all (\<lambda>(expression, names, vals). names_ok names) requests \<Longrightarrow>
   parse_requests poisoned env requests cache =
     map (\<lambda>(expression, names, vals). ebind (parse_update_expression_plan env names expression)
       (\<lambda>plan. bind_update_expression_plan plan vals)) requests"
proof (induction poisoned env requests cache rule: parse_requests.induct)
  case (2 poisoned env expression names vals requests cache)
  then show ?case using cached_plan_sound [of env cache names poisoned expression]
    by (auto simp: parse_update_expression_def split_beta)
qed simp

text \<open>
  C35: The cache of plans is transparent for a sequence of requests: starting without plans, every request
  \<open>parse_update_expression\<close> gets the operations or the error that planning its expression from scratch and
  binding its values gives, whatever expressions were planned before and whether or not the lock of the
  cache is poisoned, when the names of each request are distinct.
\<close>

theorem plan_cache_transparent:
  assumes "list_all (\<lambda>(expression, names, vals). names_ok names) requests"
  shows "parse_requests poisoned env requests (\<lambda>_. []) =
    map (\<lambda>(expression, names, vals). ebind (parse_update_expression_plan env names expression)
      (\<lambda>plan. bind_update_expression_plan plan vals)) requests"
  using requests_transparent [OF empty_plan_cache assms] .

theorem plan_cache_transparent_witness:
  "parse_requests False plain_env
      [(''REMOVE #n'', Some [(''#n'', ''a'')], None), (''REMOVE #n'', Some [(''#n'', ''b'')], None)] (\<lambda>_. []) =
    map (\<lambda>(expression, names, vals). ebind (parse_update_expression_plan plain_env names expression)
      (\<lambda>plan. bind_update_expression_plan plan vals))
      [(''REMOVE #n'', Some [(''#n'', ''a'')], None), (''REMOVE #n'', Some [(''#n'', ''b'')], None)]"
  by (rule plan_cache_transparent) (simp add: names_ok_def)

text \<open>
  C7: Requests that plan update expressions at the same time, sharing the plan cache, are all answered,
  and each with the plan or the error that planning its expression without a cache gives. Whatever the
  order of their steps, a run has at most two steps per request, and while a request is not answered
  some step is possible. This holds with an intact and with a poisoned lock. The names of each request
  must be distinct.
\<close>

theorem plan_requests_answered:
  assumes "list_all (\<lambda>(expression, names). names_ok names) questions"
    and "cache_run attribute_names_match (\<lambda>_. sorted_attribute_names)
      (\<lambda>expression names. parse_update_expression_plan env names expression) (fresh_system poisoned questions) n t"
  shows "n \<le> 2 * length questions
    \<and> list_all (asker_ok (\<lambda>expression names. parse_update_expression_plan env names expression)) (cs_askers t)
    \<and> ((\<exists>u. cache_step attribute_names_match (\<lambda>_. sorted_attribute_names)
          (\<lambda>expression names. parse_update_expression_plan env names expression) t u)
       \<or> cs_askers t = map (\<lambda>(expression, names). Answered expression names (parse_update_expression_plan env names expression)) questions)"
  using plans.fresh_run [OF assms] .

lemma remove_plan: "parse_update_expression_plan plain_env None ''REMOVE a'' = Inr [PlanRemove ''a'']"
  by code_simp

lemma remove_run:
  "cache_run attribute_names_match (\<lambda>_. sorted_attribute_names)
      (\<lambda>expression names. parse_update_expression_plan plain_env names expression) (fresh_system False [(''REMOVE a'', None)]) 1
      \<lparr>cs_poisoned = False, cs_cache = (\<lambda>_. []), cs_askers = [Computed ''REMOVE a'' None [PlanRemove ''a'']]\<rparr>"
proof -
  let ?s = "fresh_system False [(''REMOVE a'', None)] :: (names option, (string \<times> string) list, update_operation_plan list, update_error) cache_system"
  have "cache_step attribute_names_match (\<lambda>_. sorted_attribute_names)
      (\<lambda>expression names. parse_update_expression_plan plain_env names expression) ?s
      (?s\<lparr>cs_askers := (cs_askers ?s)[0 := Computed ''REMOVE a'' None [PlanRemove ''a'']]\<rparr>)"
    by (rule cache_step.compute_ok) (simp_all add: fresh_system_def cache_read_def remove_plan)
  from cache_run.run_step [OF cache_run.run_start this] show ?thesis by (simp add: fresh_system_def)
qed

theorem plan_requests_answered_witness:
  "list_all (asker_ok (\<lambda>expression names. parse_update_expression_plan plain_env names expression))
      [Computed ''REMOVE a'' None [PlanRemove ''a'']]
    \<and> (\<exists>u. cache_step attribute_names_match (\<lambda>_. sorted_attribute_names)
          (\<lambda>expression names. parse_update_expression_plan plain_env names expression)
          \<lparr>cs_poisoned = False, cs_cache = (\<lambda>_. []), cs_askers = [Computed ''REMOVE a'' None [PlanRemove ''a'']]\<rparr> u)"
  using plan_requests_answered [OF _ remove_run] by (simp add: names_ok_def)

end
